theory Spec2Isabelle
  imports Main
begin

section \<open>Values, exceptions and the environment of \<^verbatim>\<open>extractor.py\<close>\<close>

text \<open>
  The module works on Python strings and on whatever \<^verbatim>\<open>response.json()\<close> returns.
  A Python string is modelled as a \<^typ>\<open>string\<close>: a list of characters with code points
  below 256. On that range \<^verbatim>\<open>\d\<close> matches exactly the ASCII digits and
  \<^verbatim>\<open>str.strip()\<close> removes exactly the twelve characters of \<open>py_whitespace\<close>.
  A decoded JSON document is a \<open>jval\<close>; a \<^verbatim>\<open>dict\<close> is the list of its items in
  insertion order, read with \<^const>\<open>map_of\<close>. JSON numbers are integers in this model.
\<close>

datatype jval =
    JNull
  | JBool bool
  | JInt int
  | JStr string
  | JArr "jval list"
  | JObj "(string \<times> jval) list"

text \<open>
  Every exception the module can raise is a value. \<open>SteamExtractorError\<close> is the module's
  own class and carries its message; the others are the built-in classes that the
  operations on decoded JSON raise. All of them derive from \<^verbatim>\<open>Exception\<close>.
\<close>

datatype exn =
    SteamExtractorError string
  | TypeError
  | AttributeError
  | KeyError string

text \<open>Truth value testing (\<^verbatim>\<open>if x\<close>, \<^verbatim>\<open>not x\<close>) on decoded JSON.\<close>

fun truthy :: "jval \<Rightarrow> bool" where
  "truthy JNull = False"
| "truthy (JBool b) = b"
| "truthy (JInt i) = (i \<noteq> 0)"
| "truthy (JStr s) = (s \<noteq> [])"
| "truthy (JArr xs) = (xs \<noteq> [])"
| "truthy (JObj kvs) = (kvs \<noteq> [])"

text \<open>\<^verbatim>\<open>x.get(key, default)\<close>: only a dict has the method.\<close>

fun py_get :: "jval \<Rightarrow> string \<Rightarrow> jval \<Rightarrow> exn + jval" where
  "py_get (JObj kvs) k d = Inr (case map_of kvs k of None \<Rightarrow> d | Some v \<Rightarrow> v)"
| "py_get _ k d = Inl AttributeError"

text \<open>\<^verbatim>\<open>x[key]\<close> with a string key: a missing key raises, a list or a string cannot be
  indexed by a string, and the scalars are not subscriptable.\<close>

fun py_getitem :: "jval \<Rightarrow> string \<Rightarrow> exn + jval" where
  "py_getitem (JObj kvs) k = (case map_of kvs k of None \<Rightarrow> Inl (KeyError k) | Some v \<Rightarrow> Inr v)"
| "py_getitem _ k = Inl TypeError"

text \<open>Substring search, as \<^verbatim>\<open>key in some_string\<close> does it.\<close>

definition starts_with :: "string \<Rightarrow> string \<Rightarrow> bool" where
  "starts_with p s = (take (length p) s = p)"

fun substring_in :: "string \<Rightarrow> string \<Rightarrow> bool" where
  "substring_in p [] = (p = [])"
| "substring_in p (c # cs) = (starts_with p (c # cs) \<or> substring_in p cs)"

text \<open>\<^verbatim>\<open>key in x\<close> with a string key: key membership for a dict, element membership for a
  list, substring search for a string, \<^verbatim>\<open>TypeError\<close> for the rest.\<close>

fun py_contains :: "jval \<Rightarrow> string \<Rightarrow> exn + bool" where
  "py_contains (JObj kvs) k = Inr (k \<in> set (map fst kvs))"
| "py_contains (JArr xs) k = Inr (JStr k \<in> set xs)"
| "py_contains (JStr s) k = Inr (substring_in k s)"
| "py_contains _ k = Inl TypeError"

text \<open>\<^verbatim>\<open>len(x)\<close>.\<close>

fun py_len :: "jval \<Rightarrow> exn + nat" where
  "py_len (JStr s) = Inr (length s)"
| "py_len (JArr xs) = Inr (length xs)"
| "py_len (JObj kvs) = Inr (length kvs)"
| "py_len _ = Inl TypeError"

text \<open>Iterating a value: a list yields its elements, a dict its keys, a string its
  characters as one-character strings; the scalars are not iterable.\<close>

fun py_iter :: "jval \<Rightarrow> exn + jval list" where
  "py_iter (JArr xs) = Inr xs"
| "py_iter (JObj kvs) = Inr (map (\<lambda>kv. JStr (fst kv)) kvs)"
| "py_iter (JStr s) = Inr (map (\<lambda>c. JStr [c]) s)"
| "py_iter _ = Inl TypeError"

section \<open>Identifier extraction\<close>

definition is_digit :: "char \<Rightarrow> bool" where
  "is_digit c = (c \<in> set ''0123456789'')"

definition py_whitespace :: "char list" where
  "py_whitespace =
     [CHR 0x09, CHR 0x0A, CHR 0x0B, CHR 0x0C, CHR 0x0D, CHR 0x1C, CHR 0x1D, CHR 0x1E,
      CHR 0x1F, CHR 0x20, CHR 0x85, CHR 0xA0]"

definition is_space :: "char \<Rightarrow> bool" where
  "is_space c = (c \<in> set py_whitespace)"

text \<open>\<^verbatim>\<open>s.strip()\<close>: whitespace removed at both ends.\<close>

definition py_strip :: "string \<Rightarrow> string" where
  "py_strip s = rev (dropWhile is_space (rev (dropWhile is_space s)))"

text \<open>
  \<^verbatim>\<open>re.search(r"/app/(\d+)", url)\<close>. \<open>match_at\<close> is an anchored match attempt: the
  literal \<^verbatim>\<open>/app/\<close>, then the longest run of digits, which must not be empty; it yields
  group 1. \<open>re_search\<close> tries each start position from the left and keeps the first
  success.
\<close>

definition match_at :: "string \<Rightarrow> string option" where
  "match_at s =
     (if starts_with ''/app/'' s
      then (let ds = takeWhile is_digit (drop 5 s) in if ds = [] then None else Some ds)
      else None)"

fun re_search :: "string \<Rightarrow> string option" where
  "re_search [] = match_at []"
| "re_search (c # cs) =
     (case match_at (c # cs) of Some ds \<Rightarrow> Some ds | None \<Rightarrow> re_search cs)"

text \<open>The argument is any Python value: the annotation \<^verbatim>\<open>url: str\<close> is not enforced, and
  the function tests \<^verbatim>\<open>isinstance(url, str)\<close> itself.\<close>

fun extract_app_id :: "jval \<Rightarrow> exn + string" where
  "extract_app_id (JStr url) =
     (if py_strip url = [] then Inl (SteamExtractorError ''URL is empty or not a string'')
      else (case re_search url of
              None \<Rightarrow> Inl (SteamExtractorError ''Invalid Steam product URL'')
            | Some ds \<Rightarrow> Inr ds))"
| "extract_app_id _ = Inl (SteamExtractorError ''URL is empty or not a string'')"

section \<open>The remote fetcher\<close>

text \<open>
  The network is a parameter: what \<^verbatim>\<open>requests.get(api_url, timeout=10)\<close>, followed by
  \<^verbatim>\<open>raise_for_status()\<close> and \<^verbatim>\<open>response.json()\<close>, does for a given request target.
  \<open>GetTimeout\<close> is a raised \<^verbatim>\<open>Timeout\<close>, \<open>GetFailed msg\<close> any other
  \<^verbatim>\<open>RequestException\<close> (a bad status included) whose text is \<open>msg\<close>, \<open>BodyNotJson\<close> a
  body on which \<^verbatim>\<open>response.json()\<close> raises \<^verbatim>\<open>ValueError\<close>, and \<open>BodyJson d\<close> a body
  that decodes to \<open>d\<close>.
\<close>

datatype http_outcome =
    GetTimeout
  | GetFailed string
  | BodyNotJson
  | BodyJson jval

definition api_url :: "string \<Rightarrow> string" where
  "api_url app_id = ''https://store.steampowered.com/api/appdetails?appids='' @ app_id"

definition fetch_steam_data :: "(string \<Rightarrow> http_outcome) \<Rightarrow> string \<Rightarrow> exn + jval" where
  "fetch_steam_data http_get app_id =
     (case http_get (api_url app_id) of
        GetTimeout \<Rightarrow> Inl (SteamExtractorError ''Steam API request timed out'')
      | GetFailed msg \<Rightarrow> Inl (SteamExtractorError (''Network error: '' @ msg))
      | BodyNotJson \<Rightarrow> Inl (SteamExtractorError ''Invalid JSON received from Steam'')
      | BodyJson data \<Rightarrow>
          (case py_contains data app_id of
             Inl e \<Rightarrow> Inl e
           | Inr present \<Rightarrow>
               if \<not> present then Inl (SteamExtractorError ''Steam API response missing app ID'')
               else (case py_getitem data app_id of
                       Inl e \<Rightarrow> Inl e
                     | Inr envelope \<Rightarrow>
                         (case py_get envelope ''success'' JNull of
                            Inl e \<Rightarrow> Inl e
                          | Inr success \<Rightarrow>
                              if \<not> truthy success
                              then Inl (SteamExtractorError ''Steam API returned success=false'')
                              else py_getitem envelope ''data''))))"

section \<open>The payload builder\<close>

text \<open>
  The list comprehension of \<^verbatim>\<open>build_payload\<close>, over the items the iteration yields: the
  filter \<^verbatim>\<open>"path_full" in s\<close> runs first, the element expression \<^verbatim>\<open>s["path_full"]\<close>
  only on the items that pass it. An exception in either ends the comprehension.
\<close>

fun collect_paths :: "jval list \<Rightarrow> exn + jval list" where
  "collect_paths [] = Inr []"
| "collect_paths (s # ss) =
     (case py_contains s ''path_full'' of
        Inl e \<Rightarrow> Inl e
      | Inr has \<Rightarrow>
          if \<not> has then collect_paths ss
          else (case py_getitem s ''path_full'' of
                  Inl e \<Rightarrow> Inl e
                | Inr v \<Rightarrow>
                    (case collect_paths ss of Inl e \<Rightarrow> Inl e | Inr vs \<Rightarrow> Inr (v # vs))))"

text \<open>The \<^verbatim>\<open>try\<close> block: \<^verbatim>\<open>game.get("screenshots", [])\<close>, the iteration and the
  comprehension. \<^verbatim>\<open>except TypeError\<close> replaces the result by the empty list; any other
  exception passes through.\<close>

definition screenshots_of :: "jval \<Rightarrow> exn + jval list" where
  "screenshots_of game =
     (case (case py_get game ''screenshots'' (JArr []) of
              Inl e \<Rightarrow> Inl e
            | Inr field \<Rightarrow>
                (case py_iter field of Inl e \<Rightarrow> Inl e | Inr items \<Rightarrow> collect_paths items)) of
        Inl TypeError \<Rightarrow> Inr []
      | Inl e \<Rightarrow> Inl e
      | Inr paths \<Rightarrow> Inr paths)"

definition build_payload :: "string \<Rightarrow> string \<Rightarrow> jval \<Rightarrow> exn + jval" where
  "build_payload app_id url game =
     (case screenshots_of game of
        Inl e \<Rightarrow> Inl e
      | Inr screenshots \<Rightarrow>
          (case py_get game ''name'' (JStr ''Unknown'') of
             Inl e \<Rightarrow> Inl e
           | Inr name \<Rightarrow>
               (case py_get game ''header_image'' JNull of
                  Inl e \<Rightarrow> Inl e
                | Inr header \<Rightarrow>
                    Inr (JObj [(''app_id'', JStr app_id),
                               (''name'', name),
                               (''source'', JStr url),
                               (''images'', JObj [(''header'', header),
                                                  (''screenshots'', JArr screenshots)])]))))"

section \<open>Serialisation: \<^verbatim>\<open>json.dump(payload, f, indent=2)\<close>\<close>

text \<open>
  The encoder runs with its defaults apart from the indentation: \<^verbatim>\<open>ensure_ascii\<close> is on,
  keys are written in the dict's own order (\<^verbatim>\<open>sort_keys\<close> is off), items are separated by
  a comma and a line break, a key and its value by a colon and a space.
\<close>

definition hex_digit :: "nat \<Rightarrow> char" where
  "hex_digit n = ''0123456789abcdef'' ! (n mod 16)"

text \<open>One character of a string literal: the short escapes, the printable ASCII range
  as it is, everything else as \<^verbatim>\<open>\u00XX\<close>.\<close>

definition escape_char :: "char \<Rightarrow> string" where
  "escape_char c =
     (if c = CHR 0x22 then [CHR 0x5C, CHR 0x22]
      else if c = CHR 0x5C then [CHR 0x5C, CHR 0x5C]
      else if c = CHR 0x0A then [CHR 0x5C, CHR ''n'']
      else if c = CHR 0x0D then [CHR 0x5C, CHR ''r'']
      else if c = CHR 0x09 then [CHR 0x5C, CHR ''t'']
      else if c = CHR 0x08 then [CHR 0x5C, CHR ''b'']
      else if c = CHR 0x0C then [CHR 0x5C, CHR ''f'']
      else if 32 \<le> (of_char c :: nat) \<and> (of_char c :: nat) \<le> 126 then [c]
      else [CHR 0x5C, CHR ''u'', CHR ''0'', CHR ''0'',
            hex_digit ((of_char c :: nat) div 16), hex_digit (of_char c :: nat)])"

definition encode_str :: "string \<Rightarrow> string" where
  "encode_str s = [CHR 0x22] @ concat (map escape_char s) @ [CHR 0x22]"

fun nat_repr :: "nat \<Rightarrow> string" where
  "nat_repr n =
     (if n < 10 then [''0123456789'' ! n] else nat_repr (n div 10) @ [''0123456789'' ! (n mod 10)])"

declare nat_repr.simps [simp del]

definition int_repr :: "int \<Rightarrow> string" where
  "int_repr i = (if i < 0 then CHR ''-'' # nat_repr (nat (- i)) else nat_repr (nat i))"

definition newline_indent :: "nat \<Rightarrow> string" where
  "newline_indent level = CHR 0x0A # replicate (2 * level) (CHR '' '')"

fun join :: "string \<Rightarrow> string list \<Rightarrow> string" where
  "join sep [] = []"
| "join sep [x] = x"
| "join sep (x # y # ys) = x @ sep @ join sep (y # ys)"

fun json_encode :: "nat \<Rightarrow> jval \<Rightarrow> string" where
  "json_encode level JNull = ''null''"
| "json_encode level (JBool b) = (if b then ''true'' else ''false'')"
| "json_encode level (JInt i) = int_repr i"
| "json_encode level (JStr s) = encode_str s"
| "json_encode level (JArr xs) =
     (if xs = [] then ''[]''
      else ''['' @ newline_indent (Suc level)
           @ join ('','' @ newline_indent (Suc level)) (map (json_encode (Suc level)) xs)
           @ newline_indent level @ '']'')"
| "json_encode level (JObj kvs) =
     (if kvs = [] then ''{}''
      else ''{'' @ newline_indent (Suc level)
           @ join ('','' @ newline_indent (Suc level))
               (map (\<lambda>kv. encode_str (fst kv) @ '': '' @ json_encode (Suc level) (snd kv)) kvs)
           @ newline_indent level @ ''}'')"

definition json_dumps :: "jval \<Rightarrow> string" where
  "json_dumps payload = json_encode 0 payload"

section \<open>The persister\<close>

text \<open>
  The program's state is the content of the file system, a map from path to file content,
  and the console, the list of the lines printed so far. The console lines are a datatype,
  one constructor per \<^verbatim>\<open>print\<close> call of the module, holding what the call interpolates.
  A \<^verbatim>\<open>print\<close> appends its line: the console takes every line.
\<close>

datatype line =
    Processing string
  | Saved string
  | Extracted nat
  | ErrorLine string
  | UnexpectedLine exn
  | StartupErrorLine string
  | FinishedLine

record state =
  files :: "string \<rightharpoonup> string"
  console :: "line list"

definition print :: "line \<Rightarrow> state \<Rightarrow> state" where
  "print l st = st\<lparr>console := console st @ [l]\<rparr>"

text \<open>
  Storage is a parameter: what opening a path for writing and writing the text does.
  \<open>WriteOk\<close>: the file holds the whole text. \<open>OpenFails msg\<close>: \<^verbatim>\<open>open\<close> raises
  \<^verbatim>\<open>OSError\<close> and the file system is untouched. \<open>WriteFails n msg\<close>: the file was opened,
  so truncated, and the \<^verbatim>\<open>OSError\<close> comes after \<open>n\<close> characters reached it.
\<close>

datatype write_outcome =
    WriteOk
  | OpenFails string
  | WriteFails nat string

record env =
  http_get :: "string \<Rightarrow> http_outcome"
  storage :: "string \<Rightarrow> write_outcome"

definition OUTPUT_DIR :: string where
  "OUTPUT_DIR = ''output''"

text \<open>\<^verbatim>\<open>os.path.join\<close> with two arguments, POSIX flavour.\<close>

definition path_join :: "string \<Rightarrow> string \<Rightarrow> string" where
  "path_join a b =
     (if starts_with ''/'' b then b
      else if a = [] \<or> last a = CHR ''/'' then a @ b
      else a @ ''/'' @ b)"

definition file_path :: "string \<Rightarrow> string" where
  "file_path app_id = path_join OUTPUT_DIR (''app_'' @ app_id @ ''.json'')"

definition save_json :: "env \<Rightarrow> string \<Rightarrow> jval \<Rightarrow> state \<Rightarrow> (exn + unit) \<times> state" where
  "save_json ev app_id payload st =
     (let p = file_path app_id in
      case storage ev p of
        OpenFails msg \<Rightarrow> (Inl (SteamExtractorError (''Failed to write JSON file: '' @ msg)), st)
      | WriteFails n msg \<Rightarrow>
          (Inl (SteamExtractorError (''Failed to write JSON file: '' @ msg)),
           st\<lparr>files := (files st)(p \<mapsto> take n (json_dumps payload))\<rparr>)
      | WriteOk \<Rightarrow>
          (Inr (), print (Saved p) (st\<lparr>files := (files st)(p \<mapsto> json_dumps payload)\<rparr>)))"

section \<open>The driver\<close>

text \<open>The expression that \<^verbatim>\<open>process_url\<close> binds to \<^verbatim>\<open>image_count\<close>.\<close>

definition image_count :: "jval \<Rightarrow> exn + nat" where
  "image_count payload =
     (case py_getitem payload ''images'' of
        Inl e \<Rightarrow> Inl e
      | Inr images \<Rightarrow>
          (case py_getitem images ''header'' of
             Inl e \<Rightarrow> Inl e
           | Inr header \<Rightarrow>
               (case py_getitem images ''screenshots'' of
                  Inl e \<Rightarrow> Inl e
                | Inr shots \<Rightarrow>
                    (case py_len shots of
                       Inl e \<Rightarrow> Inl e
                     | Inr n \<Rightarrow> Inr ((if truthy header then 1 else 0) + n)))))"

text \<open>The body of the \<^verbatim>\<open>try\<close> block of \<^verbatim>\<open>process_url\<close>: the first exception ends it, and
  the state reached so far stays.\<close>

definition process_body :: "env \<Rightarrow> string \<Rightarrow> state \<Rightarrow> (exn + unit) \<times> state" where
  "process_body ev url st =
     (case extract_app_id (JStr url) of
        Inl e \<Rightarrow> (Inl e, st)
      | Inr app_id \<Rightarrow>
          (case fetch_steam_data (http_get ev) app_id of
             Inl e \<Rightarrow> (Inl e, st)
           | Inr game_data \<Rightarrow>
               (case build_payload app_id url game_data of
                  Inl e \<Rightarrow> (Inl e, st)
                | Inr payload \<Rightarrow>
                    (case save_json ev app_id payload st of
                       (Inl e, st') \<Rightarrow> (Inl e, st')
                     | (Inr u, st') \<Rightarrow>
                         (case image_count payload of
                            Inl e \<Rightarrow> (Inl e, st')
                          | Inr n \<Rightarrow> (Inr (), print (Extracted n) st'))))))"

text \<open>The two handlers: the module's own class first, then \<^verbatim>\<open>Exception\<close>, which every
  other class of \<open>exn\<close> derives from.\<close>

definition process_url :: "env \<Rightarrow> string \<Rightarrow> state \<Rightarrow> state" where
  "process_url ev url st =
     (case process_body ev url (print (Processing url) st) of
        (Inr u, st') \<Rightarrow> st'
      | (Inl (SteamExtractorError msg), st') \<Rightarrow> print (ErrorLine msg) st'
      | (Inl e, st') \<Rightarrow> print (UnexpectedLine e) st')"

text \<open>\<^verbatim>\<open>load_urls\<close>: the input file is its list of lines, or nothing when the path does not
  exist.\<close>

definition load_urls :: "string \<Rightarrow> string list option \<Rightarrow> exn + string list" where
  "load_urls path content =
     (case content of
        None \<Rightarrow> Inl (SteamExtractorError (''Input file not found: '' @ path))
      | Some lines \<Rightarrow> Inr (map py_strip (filter (\<lambda>l. py_strip l \<noteq> []) lines)))"

text \<open>The loop \<^verbatim>\<open>for url in urls: process_url(url)\<close>.\<close>

fun run_batch :: "env \<Rightarrow> string list \<Rightarrow> state \<Rightarrow> state" where
  "run_batch ev [] st = st"
| "run_batch ev (url # urls) st = run_batch ev urls (process_url ev url st)"

text \<open>The main block; the result is the exit status and the final state.\<close>

definition main :: "env \<Rightarrow> string list option \<Rightarrow> state \<Rightarrow> nat \<times> state" where
  "main ev content st =
     (case load_urls ''steam_links.txt'' content of
        Inl e \<Rightarrow> (1, (case e of SteamExtractorError msg \<Rightarrow> print (StartupErrorLine msg) st | _ \<Rightarrow> st))
      | Inr urls \<Rightarrow> (0, print FinishedLine (run_batch ev urls st)))"

section \<open>Definitions for the statements\<close>

text \<open>
  The screenshots as the spec words them: the full-size path of every entry that has one,
  in the order of the entries.
\<close>

definition full_size_paths :: "jval list \<Rightarrow> jval list" where
  "full_size_paths entries =
     List.map_filter (\<lambda>e. case e of JObj kvs \<Rightarrow> map_of kvs ''path_full'' | _ \<Rightarrow> None) entries"

text \<open>The remote record of the spec's example.\<close>

definition example_record :: jval where
  "example_record =
     JObj [(''name'', JStr ''Game X''),
           (''header_image'', JStr ''http://h.jpg''),
           (''screenshots'', JArr [JObj [(''path_full'', JStr ''http://s1.jpg'')],
                                   JObj [(''id'', JInt 2)],
                                   JObj [(''path_full'', JStr ''http://s3.jpg'')]])]"

text \<open>A remote that answers every request with the same decoded body.\<close>

definition answering :: "jval \<Rightarrow> string \<Rightarrow> http_outcome" where
  "answering body target = BodyJson body"

text \<open>
  A remote catalogue for concrete runs: the API knows the listed identifiers and answers
  each with its envelope; any other request fails with a bad status. Storage accepts
  every write.
\<close>

definition catalog_env :: "(string \<times> jval) list \<Rightarrow> env" where
  "catalog_env catalog =
     \<lparr>http_get = (\<lambda>u. case map_of (map (\<lambda>ae. (api_url (fst ae), JObj [ae])) catalog) u of
                        None \<Rightarrow> GetFailed ''404 Client Error''
                      | Some body \<Rightarrow> BodyJson body),
      storage = (\<lambda>p. WriteOk)\<rparr>"

definition empty_state :: state where
  "empty_state = \<lparr>files = Map.empty, console = []\<rparr>"

text \<open>The envelope of a successful answer around a record.\<close>

definition succeeded :: "jval \<Rightarrow> jval" where
  "succeeded record = JObj [(''success'', JBool True), (''data'', record)]"

text \<open>The console lines by kind: the line that starts an item, the line that ends it
  (the image count or an error), and among those the errors.\<close>

fun is_start :: "line \<Rightarrow> bool" where
  "is_start (Processing u) = True"
| "is_start _ = False"

fun is_error :: "line \<Rightarrow> bool" where
  "is_error (ErrorLine m) = True"
| "is_error (UnexpectedLine e) = True"
| "is_error _ = False"

fun is_report :: "line \<Rightarrow> bool" where
  "is_report (Extracted n) = True"
| "is_report l = is_error l"

section \<open>Properties\<close>

subsection \<open>Identifier extraction\<close>

lemma py_strip_Nil_iff: "py_strip s = [] \<longleftrightarrow> (\<forall>c\<in>set s. is_space c)"
proof
  assume a: "py_strip s = []"
  show "\<forall>c\<in>set s. is_space c"
  proof (rule ccontr)
    assume "\<not> (\<forall>c\<in>set s. is_space c)"
    then have ne: "dropWhile is_space s \<noteq> []" by (simp add: dropWhile_eq_Nil_conv)
    then have "\<not> is_space (hd (dropWhile is_space s))" by (rule hd_dropWhile)
    moreover have "hd (dropWhile is_space s) \<in> set (dropWhile is_space s)" using ne by simp
    moreover from a have "\<forall>c\<in>set (dropWhile is_space s). is_space c"
      by (simp add: py_strip_def dropWhile_eq_Nil_conv)
    ultimately show False by blast
  qed
next
  assume "\<forall>c\<in>set s. is_space c"
  then show "py_strip s = []"
    by (auto simp: py_strip_def dropWhile_eq_Nil_conv dest: set_dropWhileD)
qed

lemma slash_not_space: "\<not> is_space (CHR ''/'')"
  by (simp add: is_space_def py_whitespace_def)

lemma match_at_Some_iff:
  "match_at s = Some ds \<longleftrightarrow>
     starts_with ''/app/'' s \<and> ds = takeWhile is_digit (drop 5 s) \<and> ds \<noteq> []"
  by (auto simp: match_at_def Let_def)

lemma starts_with_app: "starts_with ''/app/'' s \<longleftrightarrow> (\<exists>t. s = ''/app/'' @ t)"
proof
  assume "starts_with ''/app/'' s"
  then have "take (length ''/app/'') s = ''/app/''" unfolding starts_with_def .
  then have "s = ''/app/'' @ drop (length ''/app/'') s" by (metis append_take_drop_id)
  then show "\<exists>t. s = ''/app/'' @ t" ..
next
  assume "\<exists>t. s = ''/app/'' @ t"
  then show "starts_with ''/app/'' s" by (auto simp: starts_with_def)
qed

lemma match_at_None_iff:
  "match_at s = None \<longleftrightarrow> \<not> (\<exists>c post. s = ''/app/'' @ c # post \<and> is_digit c)"
proof (cases "starts_with ''/app/'' s")
  case False
  then show ?thesis by (auto simp: match_at_def starts_with_app)
next
  case True
  then obtain t where t: "s = ''/app/'' @ t" by (auto simp: starts_with_app)
  show ?thesis
  proof (cases t)
    case Nil
    with t show ?thesis by (simp add: match_at_def starts_with_def)
  next
    case (Cons c cs)
    with t show ?thesis by (simp add: match_at_def starts_with_def)
  qed
qed

lemma match_at_exact:
  assumes "ds \<noteq> []" "\<forall>c\<in>set ds. is_digit c" "post = [] \<or> \<not> is_digit (hd post)"
  shows "match_at (''/app/'' @ ds @ post) = Some ds"
proof -
  have "takeWhile is_digit (ds @ post) = ds"
    using assms(2,3) by (cases post) (simp_all add: takeWhile_append2)
  then show ?thesis using assms(1) by (simp add: match_at_def starts_with_def)
qed

lemma re_search_hit: "match_at s = Some ds \<Longrightarrow> re_search s = Some ds"
  by (cases s) simp_all

lemma re_search_skip:
  "(\<forall>i<length pre. match_at (drop i (pre @ rest)) = None) \<Longrightarrow>
     re_search (pre @ rest) = re_search rest"
proof (induction pre)
  case Nil
  then show ?case by simp
next
  case (Cons x xs)
  have "match_at (x # xs @ rest) = None" using Cons.prems by force
  moreover have "\<forall>i<length xs. match_at (drop i (xs @ rest)) = None"
  proof (intro allI impI)
    fix i assume "i < length xs"
    then have "Suc i < length (x # xs)" by simp
    with Cons.prems have "match_at (drop (Suc i) ((x # xs) @ rest)) = None" by blast
    then show "match_at (drop i (xs @ rest)) = None" by simp
  qed
  ultimately show ?case using Cons.IH by simp
qed


lemma re_search_None:
  assumes "\<not> (\<exists>pre c post. url = pre @ ''/app/'' @ c # post \<and> is_digit c)"
  shows "re_search url = None"
proof -
  have none: "match_at (drop i url) = None" for i
  proof -
    have "\<not> (\<exists>c post. drop i url = ''/app/'' @ c # post \<and> is_digit c)"
    proof
      assume "\<exists>c post. drop i url = ''/app/'' @ c # post \<and> is_digit c"
      then obtain c post where "drop i url = ''/app/'' @ c # post" "is_digit c" by blast
      then have "url = take i url @ ''/app/'' @ c # post \<and> is_digit c"
        by (metis append_take_drop_id)
      with assms show False by blast
    qed
    then show ?thesis by (simp add: match_at_None_iff)
  qed
  have "re_search (url @ []) = re_search []"
    by (rule re_search_skip) (simp add: none)
  moreover have "match_at [] = None" by (simp add: match_at_def starts_with_def)
  ultimately show ?thesis by simp
qed

lemma re_search_first:
  assumes url: "url = pre @ ''/app/'' @ ds @ post"
    and ds: "ds \<noteq> []" "\<forall>c\<in>set ds. is_digit c"
    and post: "post = [] \<or> \<not> is_digit (hd post)"
    and first: "\<forall>pre' c post'. url = pre' @ ''/app/'' @ c # post' \<and> is_digit c
                  \<longrightarrow> length pre \<le> length pre'"
  shows "re_search url = Some ds"
proof -
  have none: "match_at (drop i (pre @ ''/app/'' @ ds @ post)) = None" if "i < length pre" for i
  proof -
    have "\<not> (\<exists>c post'. drop i url = ''/app/'' @ c # post' \<and> is_digit c)"
    proof
      assume "\<exists>c post'. drop i url = ''/app/'' @ c # post' \<and> is_digit c"
      then obtain c post' where d: "drop i url = ''/app/'' @ c # post'" and c: "is_digit c"
        by blast
      then have "url = take i url @ ''/app/'' @ c # post'" by (metis append_take_drop_id)
      with first c have "length pre \<le> length (take i url)" by blast
      with that show False by simp
    qed
    then have "match_at (drop i url) = None" by (simp add: match_at_None_iff)
    then show ?thesis unfolding url .
  qed
  have "re_search (pre @ ''/app/'' @ ds @ post) = re_search (''/app/'' @ ds @ post)"
    by (rule re_search_skip) (intro allI impI, rule none)
  also have "\<dots> = Some ds"
    by (rule re_search_hit) (rule match_at_exact [OF ds post])
  finally show ?thesis by (simp only: url)
qed

lemma pattern_not_blank:
  assumes "url = pre @ ''/app/'' @ rest"
  shows "py_strip url \<noteq> []"
proof -
  have "CHR ''/'' \<in> set url" using assms by simp
  with slash_not_space show ?thesis by (auto simp: py_strip_Nil_iff)
qed

text \<open>
  \<^bold>\<open>C1.\<close> When the URL string contains \<^verbatim>\<open>/app/\<close> followed by digits, the extractor returns
  the digits of the first such match: if \<open>url = pre @ ''/app/'' @ ds @ post\<close>, where \<open>ds\<close> is a
  non-empty run of digits that \<open>post\<close> does not continue, and no occurrence of \<^verbatim>\<open>/app/\<close>
  followed by a digit starts before \<open>pre\<close> ends, the result is \<open>ds\<close>. A string without
  any occurrence of the pattern, a string of whitespace only (the empty string included)
  and an argument that is not a string all fail with \<open>SteamExtractorError\<close>, the one
  exception class of the module, which carries the spec's \<open>InvalidInput\<close> in its two
  messages.
\<close>

theorem extract_app_id_spec:
  "(url = pre @ ''/app/'' @ ds @ post \<and> ds \<noteq> [] \<and> (\<forall>c\<in>set ds. is_digit c)
      \<and> (post = [] \<or> \<not> is_digit (hd post))
      \<and> (\<forall>pre' c post'. url = pre' @ ''/app/'' @ c # post' \<and> is_digit c
             \<longrightarrow> length pre \<le> length pre')
     \<longrightarrow> extract_app_id (JStr url) = Inr ds)
   \<and> (\<not> (\<exists>pre' c post'. url = pre' @ ''/app/'' @ c # post' \<and> is_digit c)
     \<longrightarrow> extract_app_id (JStr url) =
           Inl (SteamExtractorError (if \<forall>c\<in>set url. is_space c
                                     then ''URL is empty or not a string''
                                     else ''Invalid Steam product URL'')))
   \<and> ((\<forall>c\<in>set url. is_space c)
     \<longrightarrow> extract_app_id (JStr url) = Inl (SteamExtractorError ''URL is empty or not a string''))
   \<and> ((\<forall>s. v \<noteq> JStr s)
     \<longrightarrow> extract_app_id v = Inl (SteamExtractorError ''URL is empty or not a string''))"
proof (intro conjI impI)
  assume h: "url = pre @ ''/app/'' @ ds @ post \<and> ds \<noteq> [] \<and> (\<forall>c\<in>set ds. is_digit c)
      \<and> (post = [] \<or> \<not> is_digit (hd post))
      \<and> (\<forall>pre' c post'. url = pre' @ ''/app/'' @ c # post' \<and> is_digit c
             \<longrightarrow> length pre \<le> length pre')"
  from h have h1: "url = pre @ ''/app/'' @ ds @ post" and h2: "ds \<noteq> []"
    and h3: "\<forall>c\<in>set ds. is_digit c" and h4: "post = [] \<or> \<not> is_digit (hd post)"
    and h5: "\<forall>pre' c post'. url = pre' @ ''/app/'' @ c # post' \<and> is_digit c
               \<longrightarrow> length pre \<le> length pre'"
    by blast+
  have "re_search url = Some ds" by (rule re_search_first [OF h1 h2 h3 h4 h5])
  moreover have "py_strip url \<noteq> []" using h pattern_not_blank by blast
  ultimately show "extract_app_id (JStr url) = Inr ds" by simp
next
  assume "\<not> (\<exists>pre' c post'. url = pre' @ ''/app/'' @ c # post' \<and> is_digit c)"
  then have "re_search url = None" by (rule re_search_None)
  then show "extract_app_id (JStr url) =
           Inl (SteamExtractorError (if \<forall>c\<in>set url. is_space c
                                     then ''URL is empty or not a string''
                                     else ''Invalid Steam product URL''))"
    by (simp add: py_strip_Nil_iff)
next
  assume "\<forall>c\<in>set url. is_space c"
  then show "extract_app_id (JStr url) = Inl (SteamExtractorError ''URL is empty or not a string'')"
    by (simp add: py_strip_Nil_iff)
next
  assume "\<forall>s. v \<noteq> JStr s"
  then show "extract_app_id v = Inl (SteamExtractorError ''URL is empty or not a string'')"
    by (cases v) simp_all
qed


theorem extract_app_id_spec_witness:
  "extract_app_id (JStr ''x/app/42?y/app/7'') = Inr ''42''
   \<and> extract_app_id (JStr ''/sub/123'') = Inl (SteamExtractorError ''Invalid Steam product URL'')
   \<and> extract_app_id (JStr [CHR 0x20, CHR 0x09]) =
         Inl (SteamExtractorError ''URL is empty or not a string'')
   \<and> extract_app_id (JInt 730) = Inl (SteamExtractorError ''URL is empty or not a string'')"
proof -
  have first: "\<forall>pre' c post'. ''x/app/42?y/app/7'' = pre' @ ''/app/'' @ c # post' \<and> is_digit c
                 \<longrightarrow> length ''x'' \<le> length pre'"
    by (auto simp: Cons_eq_append_conv)
  have digits: "\<forall>c\<in>set ''42''. is_digit c" by (simp add: is_digit_def)
  have stop: "''?y/app/7'' = [] \<or> \<not> is_digit (hd ''?y/app/7'')" by (simp add: is_digit_def)
  have hyp: "''x/app/42?y/app/7'' = ''x'' @ ''/app/'' @ ''42'' @ ''?y/app/7'' \<and> ''42'' \<noteq> []
      \<and> (\<forall>c\<in>set ''42''. is_digit c)
      \<and> (''?y/app/7'' = [] \<or> \<not> is_digit (hd ''?y/app/7''))
      \<and> (\<forall>pre' c post'. ''x/app/42?y/app/7'' = pre' @ ''/app/'' @ c # post' \<and> is_digit c
             \<longrightarrow> length ''x'' \<le> length pre')"
    using first digits stop by simp
  have a: "extract_app_id (JStr ''x/app/42?y/app/7'') = Inr ''42''"
    by (rule extract_app_id_spec [of "''x/app/42?y/app/7''" "''x''" "''42''" "''?y/app/7''" JNull,
          THEN conjunct1, THEN mp, OF hyp])
  have none: "\<not> (\<exists>pre' c post'. ''/sub/123'' = pre' @ ''/app/'' @ c # post' \<and> is_digit c)"
    by (auto simp: Cons_eq_append_conv)
  have nonblank: "(\<forall>c\<in>set ''/sub/123''. is_space c) = False"
    by (simp add: is_space_def py_whitespace_def)
  have b: "extract_app_id (JStr ''/sub/123'') =
             Inl (SteamExtractorError ''Invalid Steam product URL'')"
    using extract_app_id_spec [of "''/sub/123''" "[]" "[]" "[]" JNull,
          THEN conjunct2, THEN conjunct1, THEN mp, OF none]
    by (simp only: nonblank if_False)
  have blank: "\<forall>c\<in>set [CHR 0x20, CHR 0x09]. is_space c"
    by (simp add: is_space_def py_whitespace_def)
  have c: "extract_app_id (JStr [CHR 0x20, CHR 0x09]) =
             Inl (SteamExtractorError ''URL is empty or not a string'')"
    by (rule extract_app_id_spec [of "[CHR 0x20, CHR 0x09]" "[]" "[]" "[]" JNull,
          THEN conjunct2, THEN conjunct2, THEN conjunct1, THEN mp, OF blank])
  have notstr: "\<forall>s. JInt 730 \<noteq> JStr s" by simp
  have d: "extract_app_id (JInt 730) = Inl (SteamExtractorError ''URL is empty or not a string'')"
    by (rule extract_app_id_spec [of "[]" "[]" "[]" "[]" "JInt 730",
          THEN conjunct2, THEN conjunct2, THEN conjunct2, THEN mp, OF notstr])
  from a b c d show ?thesis by (intro conjI)
qed

subsection \<open>Identifiers and output paths\<close>

lemma re_search_digits:
  "re_search url = Some ds \<Longrightarrow> ds \<noteq> [] \<and> (\<forall>c\<in>set ds. is_digit c)"
proof (induction url)
  case Nil
  then show ?case by (simp add: match_at_def starts_with_def)
next
  case (Cons c cs)
  show ?case
  proof (cases "match_at (c # cs)")
    case None
    with Cons show ?thesis by simp
  next
    case (Some d)
    with Cons.prems have "d = ds" by simp
    with Some have "ds = takeWhile is_digit (drop 5 (c # cs))" "ds \<noteq> []"
      unfolding match_at_Some_iff by blast+
    then show ?thesis by (metis set_takeWhileD)
  qed
qed

lemma extract_app_id_digits:
  "extract_app_id v = Inr ds \<Longrightarrow> ds \<noteq> [] \<and> (\<forall>c\<in>set ds. is_digit c)"
proof (cases v)
  case (JStr url)
  assume "extract_app_id v = Inr ds"
  with JStr have "re_search url = Some ds"
    by (simp split: if_splits option.splits)
  then show ?thesis by (rule re_search_digits)
qed simp_all

lemma file_path_eq: "file_path app_id = ''output/app_'' @ app_id @ ''.json''"
  by (simp add: file_path_def path_join_def OUTPUT_DIR_def starts_with_def)

text \<open>
  \<^bold>\<open>C10.\<close> Whenever extraction succeeds, on any argument, the identifier is a non-empty
  string of decimal digits. The output path is therefore the output directory, one
  separator, and a file name \<^verbatim>\<open>app_<identifier>.json\<close> in which the identifier contributes
  no slash, no backslash and no dot: the file lies directly inside the output directory.
\<close>

theorem identifier_is_path_safe:
  assumes "extract_app_id v = Inr app_id"
  shows "app_id \<noteq> [] \<and> (\<forall>c\<in>set app_id. is_digit c)
         \<and> file_path app_id = OUTPUT_DIR @ ''/'' @ (''app_'' @ app_id @ ''.json'')
         \<and> CHR ''/'' \<notin> set (''app_'' @ app_id @ ''.json'')
         \<and> CHR 0x5C \<notin> set (''app_'' @ app_id @ ''.json'')
         \<and> CHR ''.'' \<notin> set app_id"
proof -
  from assms have d: "app_id \<noteq> []" "\<forall>c\<in>set app_id. is_digit c"
    using extract_app_id_digits by blast+
  have "\<not> is_digit (CHR ''/'')" "\<not> is_digit (CHR 0x5C)" "\<not> is_digit (CHR ''.'')"
    by (simp_all add: is_digit_def)
  with d(2) have "CHR ''/'' \<notin> set app_id" "CHR 0x5C \<notin> set app_id" "CHR ''.'' \<notin> set app_id"
    by blast+
  with d show ?thesis by (simp add: file_path_eq OUTPUT_DIR_def)
qed

theorem identifier_is_path_safe_witness:
  "extract_app_id (JStr ''https://store.steampowered.com/app/730/../x'') = Inr ''730''
   \<and> file_path ''730'' = ''output/app_730.json''
   \<and> CHR ''/'' \<notin> set ''app_730.json''"
proof -
  have e: "extract_app_id (JStr ''https://store.steampowered.com/app/730/../x'') = Inr ''730''"
    by (simp add: py_strip_def is_space_def py_whitespace_def match_at_def starts_with_def
        is_digit_def)
  note safe = identifier_is_path_safe [OF e]
  have p: "file_path ''730'' = ''output/app_730.json''"
    using safe by (simp add: OUTPUT_DIR_def)
  have n: "CHR ''/'' \<notin> set ''app_730.json''"
    using safe by simp
  from e p n show ?thesis by (intro conjI)
qed

subsection \<open>The response envelope\<close>

lemma key_in_map_of: "k \<in> fst ` set kvs \<longleftrightarrow> map_of kvs k \<noteq> None"
  by (simp add: map_of_eq_None_iff)

lemma fetch_steam_data_object:
  assumes "get (api_url app_id) = BodyJson (JObj body)"
  shows "fetch_steam_data get app_id =
           (case map_of body app_id of
              None \<Rightarrow> Inl (SteamExtractorError ''Steam API response missing app ID'')
            | Some envelope \<Rightarrow>
                (case py_get envelope ''success'' JNull of
                   Inl e \<Rightarrow> Inl e
                 | Inr success \<Rightarrow>
                     if \<not> truthy success
                     then Inl (SteamExtractorError ''Steam API returned success=false'')
                     else py_getitem envelope ''data''))"
proof (cases "map_of body app_id")
  case None
  then have "app_id \<notin> fst ` set body" by (simp add: key_in_map_of)
  with None assms show ?thesis by (simp add: fetch_steam_data_def)
next
  case (Some envelope)
  then have "app_id \<in> fst ` set body" by (simp add: key_in_map_of)
  with Some assms show ?thesis by (simp add: fetch_steam_data_def)
qed

text \<open>
  \<^bold>\<open>C3\<close>, as the code has it. The response body is a JSON object. If it has no key equal
  to the identifier, the fetcher fails with the \<open>SteamExtractorError\<close> for a missing
  identifier. If the key is there and its envelope is a JSON object, the fetcher fails with
  the \<open>SteamExtractorError\<close> for \<^verbatim>\<open>success=false\<close> exactly when the envelope's success
  indicator is falsy or absent; and when the indicator is truthy and the envelope has a
  \<^verbatim>\<open>data\<close> key, the fetcher returns the value at that key.
\<close>

theorem fetch_steam_data_envelope:
  assumes "get (api_url app_id) = BodyJson (JObj body)"
  shows "(map_of body app_id = None \<longrightarrow>
            fetch_steam_data get app_id =
              Inl (SteamExtractorError ''Steam API response missing app ID''))
       \<and> (map_of body app_id = Some (JObj envelope) \<longrightarrow>
            (fetch_steam_data get app_id =
               Inl (SteamExtractorError ''Steam API returned success=false'')
             \<longleftrightarrow> \<not> truthy (case map_of envelope ''success'' of None \<Rightarrow> JNull | Some s \<Rightarrow> s)))
       \<and> (map_of body app_id = Some (JObj envelope)
            \<and> truthy (case map_of envelope ''success'' of None \<Rightarrow> JNull | Some s \<Rightarrow> s)
            \<and> map_of envelope ''data'' = Some d \<longrightarrow>
            fetch_steam_data get app_id = Inr d)"
  by (auto simp: fetch_steam_data_object [of get app_id body, OF assms] split: option.splits)

theorem fetch_steam_data_envelope_witness:
  "fetch_steam_data (answering (JObj [(''10'', JObj [(''success'', JBool False)])])) ''20''
     = Inl (SteamExtractorError ''Steam API response missing app ID'')
   \<and> fetch_steam_data (answering (JObj [(''10'', JObj [(''success'', JBool False)])])) ''10''
     = Inl (SteamExtractorError ''Steam API returned success=false'')
   \<and> fetch_steam_data
        (answering (JObj [(''10'', JObj [(''success'', JBool True),
                                             (''data'', JObj [(''name'', JStr ''Game X'')])])]))
        ''10''
     = Inr (JObj [(''name'', JStr ''Game X'')])"
proof -
  let ?no = "answering (JObj [(''10'', JObj [(''success'', JBool False)])])"
  let ?yes = "answering (JObj [(''10'', JObj [(''success'', JBool True),
                                             (''data'', JObj [(''name'', JStr ''Game X'')])])])"
  have g1: "?no (api_url ''20'') = BodyJson (JObj [(''10'', JObj [(''success'', JBool False)])])"
    by (simp add: answering_def)
  have k1: "map_of [(''10'', JObj [(''success'', JBool False)])] ''20'' = None" by simp
  have a: "fetch_steam_data ?no ''20''
             = Inl (SteamExtractorError ''Steam API response missing app ID'')"
    by (rule fetch_steam_data_envelope [of ?no "''20''", OF g1, THEN conjunct1, THEN mp, OF k1])
  have g2: "?no (api_url ''10'') = BodyJson (JObj [(''10'', JObj [(''success'', JBool False)])])"
    by (simp add: answering_def)
  have k2: "map_of [(''10'', JObj [(''success'', JBool False)])] ''10''
              = Some (JObj [(''success'', JBool False)])" by simp
  have f2: "\<not> truthy (case map_of [(''success'', JBool False)] ''success'' of
                         None \<Rightarrow> JNull | Some s \<Rightarrow> s)" by simp
  have b: "fetch_steam_data ?no ''10''
             = Inl (SteamExtractorError ''Steam API returned success=false'')"
    by (rule fetch_steam_data_envelope [of ?no "''10''", OF g2, THEN conjunct2, THEN conjunct1, THEN mp, OF k2,
          THEN iffD2, OF f2])
  have g3: "?yes (api_url ''10'') = BodyJson (JObj [(''10'', JObj [(''success'', JBool True),
                                             (''data'', JObj [(''name'', JStr ''Game X'')])])])"
    by (simp add: answering_def)
  have k3: "map_of [(''10'', JObj [(''success'', JBool True),
                                   (''data'', JObj [(''name'', JStr ''Game X'')])])] ''10''
              = Some (JObj [(''success'', JBool True), (''data'', JObj [(''name'', JStr ''Game X'')])])
            \<and> truthy (case map_of [(''success'', JBool True),
                                     (''data'', JObj [(''name'', JStr ''Game X'')])] ''success'' of
                         None \<Rightarrow> JNull | Some s \<Rightarrow> s)
            \<and> map_of [(''success'', JBool True), (''data'', JObj [(''name'', JStr ''Game X'')])]
                 ''data'' = Some (JObj [(''name'', JStr ''Game X'')])"
    by simp
  have c: "fetch_steam_data ?yes ''10'' = Inr (JObj [(''name'', JStr ''Game X'')])"
    by (rule fetch_steam_data_envelope [of ?yes "''10''", OF g3, THEN conjunct2, THEN conjunct2, THEN mp, OF k3])
  from a b c show ?thesis by (intro conjI)
qed

text \<open>
  The claim as the spec words it fails in three places: a truthy success indicator with
  no \<^verbatim>\<open>data\<close> key raises \<^verbatim>\<open>KeyError\<close> instead of returning a value; an envelope that is
  not an object has no success indicator, and raises \<^verbatim>\<open>AttributeError\<close>; and a body
  that is \<^verbatim>\<open>null\<close> has no key for the identifier, and raises \<^verbatim>\<open>TypeError\<close>.
\<close>

theorem fetch_steam_data_counterexample:
  "fetch_steam_data (answering (JObj [(''10'', JObj [(''success'', JBool True)])])) ''10''
     = Inl (KeyError ''data'')
   \<and> fetch_steam_data (answering (JObj [(''10'', JNull)])) ''10'' = Inl AttributeError
   \<and> fetch_steam_data (answering JNull) ''10'' = Inl TypeError"
  by (simp add: fetch_steam_data_def answering_def)

subsection \<open>The payload builder\<close>

lemma py_contains_error: "py_contains s k = Inl e \<Longrightarrow> e = TypeError"
  by (cases s) simp_all

lemma py_getitem_present:
  "py_contains s k = Inr True \<Longrightarrow> py_getitem s k = Inl e \<Longrightarrow> e = TypeError"
  by (cases s) (auto simp: key_in_map_of split: option.splits)

lemma collect_paths_error: "collect_paths xs = Inl e \<Longrightarrow> e = TypeError"
proof (induction xs)
  case Nil
  then show ?case by simp
next
  case (Cons s ss)
  show ?case
  proof (cases "py_contains s ''path_full''")
    case (Inl e')
    with Cons.prems py_contains_error show ?thesis by fastforce
  next
    case (Inr has)
    show ?thesis
    proof (cases has)
      case False
      with Inr Cons show ?thesis by simp
    next
      case True
      show ?thesis
      proof (cases "py_getitem s ''path_full''")
        case (Inl e')
        from Inr True have "py_contains s ''path_full'' = Inr True" by simp
        from py_getitem_present [OF this Inl] have "e' = TypeError" .
        with Inl Inr True Cons.prems show ?thesis by simp
      next
        case r: (Inr v)
        with Inr True Cons show ?thesis by (simp split: sum.splits)
      qed
    qed
  qed
qed

lemma screenshots_of_object: "\<exists>shots. screenshots_of (JObj game) = Inr shots"
proof -
  let ?inner = "case py_iter (case map_of game ''screenshots'' of None \<Rightarrow> JArr [] | Some v \<Rightarrow> v) of
                  Inl e \<Rightarrow> Inl e | Inr items \<Rightarrow> collect_paths items"
  have eq: "screenshots_of (JObj game) =
          (case ?inner of Inl TypeError \<Rightarrow> Inr [] | Inl e \<Rightarrow> Inl e | Inr paths \<Rightarrow> Inr paths)"
    by (simp add: screenshots_of_def)
  have iter: "py_iter x = Inl e \<Longrightarrow> e = TypeError" for x e by (cases x) simp_all
  have "?inner = Inl e \<Longrightarrow> e = TypeError" for e
    using iter collect_paths_error by (fastforce split: sum.splits)
  then show ?thesis unfolding eq by (cases ?inner) auto
qed

lemma build_payload_object:
  "\<exists>shots. screenshots_of (JObj game) = Inr shots \<and>
     build_payload app_id url (JObj game) =
       Inr (JObj [(''app_id'', JStr app_id),
                  (''name'', case map_of game ''name'' of None \<Rightarrow> JStr ''Unknown'' | Some v \<Rightarrow> v),
                  (''source'', JStr url),
                  (''images'',
                   JObj [(''header'', case map_of game ''header_image'' of None \<Rightarrow> JNull | Some v \<Rightarrow> v),
                         (''screenshots'', JArr shots)])])"
proof -
  obtain shots where "screenshots_of (JObj game) = Inr shots"
    using screenshots_of_object by blast
  then show ?thesis by (simp add: build_payload_def)
qed

lemma build_payload_shape:
  assumes "build_payload app_id url game = Inr payload"
  shows "\<exists>name header shots.
           payload = JObj [(''app_id'', JStr app_id), (''name'', name), (''source'', JStr url),
                           (''images'', JObj [(''header'', header), (''screenshots'', JArr shots)])]"
  using assms by (auto simp: build_payload_def split: sum.splits)

text \<open>
  \<^bold>\<open>C4.\<close> On every remote record that is a key-valued structure the payload builder
  returns, and the payload it returns holds a list under \<^verbatim>\<open>images.screenshots\<close>. When
  the record's screenshots field is missing, null, a boolean or a number, that list is
  empty.
\<close>

theorem build_payload_never_raises:
  "(\<exists>name header shots.
      build_payload app_id url (JObj game) =
        Inr (JObj [(''app_id'', JStr app_id), (''name'', name), (''source'', JStr url),
                   (''images'', JObj [(''header'', header), (''screenshots'', JArr shots)])]))
   \<and> (map_of game ''screenshots'' = None \<or> map_of game ''screenshots'' = Some JNull
        \<or> (\<exists>b. map_of game ''screenshots'' = Some (JBool b))
        \<or> (\<exists>i. map_of game ''screenshots'' = Some (JInt i))
      \<longrightarrow> (\<exists>name header.
            build_payload app_id url (JObj game) =
              Inr (JObj [(''app_id'', JStr app_id), (''name'', name), (''source'', JStr url),
                         (''images'', JObj [(''header'', header), (''screenshots'', JArr [])])])))"
proof (intro conjI impI)
  show "\<exists>name header shots.
      build_payload app_id url (JObj game) =
        Inr (JObj [(''app_id'', JStr app_id), (''name'', name), (''source'', JStr url),
                   (''images'', JObj [(''header'', header), (''screenshots'', JArr shots)])])"
    using build_payload_object [of game app_id url] by blast
next
  assume "map_of game ''screenshots'' = None \<or> map_of game ''screenshots'' = Some JNull
        \<or> (\<exists>b. map_of game ''screenshots'' = Some (JBool b))
        \<or> (\<exists>i. map_of game ''screenshots'' = Some (JInt i))"
  then have "screenshots_of (JObj game) = Inr []"
    by (auto simp: screenshots_of_def)
  then show "\<exists>name header.
            build_payload app_id url (JObj game) =
              Inr (JObj [(''app_id'', JStr app_id), (''name'', name), (''source'', JStr url),
                         (''images'', JObj [(''header'', header), (''screenshots'', JArr [])])])"
    by (simp add: build_payload_def)
qed


theorem build_payload_never_raises_witness:
  "build_payload ''10'' ''/app/10'' (JObj [(''name'', JStr ''Game X''), (''screenshots'', JInt 7)]) =
     Inr (JObj [(''app_id'', JStr ''10''), (''name'', JStr ''Game X''), (''source'', JStr ''/app/10''),
                (''images'', JObj [(''header'', JNull), (''screenshots'', JArr [])])])"
proof -
  let ?game = "[(''name'', JStr ''Game X''), (''screenshots'', JInt 7)]"
  have scalar: "map_of ?game ''screenshots'' = None \<or> map_of ?game ''screenshots'' = Some JNull
        \<or> (\<exists>b. map_of ?game ''screenshots'' = Some (JBool b))
        \<or> (\<exists>i. map_of ?game ''screenshots'' = Some (JInt i))"
    by simp
  from build_payload_never_raises [of "''10''" "''/app/10''" ?game, THEN conjunct2, THEN mp, OF scalar]
  obtain name header where
    eq: "build_payload ''10'' ''/app/10'' (JObj ?game) =
           Inr (JObj [(''app_id'', JStr ''10''), (''name'', name), (''source'', JStr ''/app/10''),
                      (''images'', JObj [(''header'', header), (''screenshots'', JArr [])])])"
    by blast
  then have "name = JStr ''Game X''" "header = JNull"
    by (simp_all add: build_payload_def screenshots_of_def)
  with eq show ?thesis by simp
qed

lemma collect_paths_objects:
  "\<forall>e\<in>set entries. \<exists>kvs. e = JObj kvs \<Longrightarrow> collect_paths entries = Inr (full_size_paths entries)"
proof (induction entries)
  case Nil
  then show ?case by (simp add: full_size_paths_def map_filter_simps)
next
  case (Cons e es)
  then obtain kvs where e: "e = JObj kvs" by auto
  from Cons have ih: "collect_paths es = Inr (full_size_paths es)" by simp
  show ?case
  proof (cases "map_of kvs ''path_full''")
    case None
    then have "''path_full'' \<notin> fst ` set kvs" by (simp add: key_in_map_of)
    with None e ih show ?thesis by (simp add: full_size_paths_def map_filter_simps)
  next
    case (Some v)
    then have "''path_full'' \<in> fst ` set kvs" by (simp add: key_in_map_of)
    with Some e ih show ?thesis by (simp add: full_size_paths_def map_filter_simps)
  qed
qed

text \<open>
  \<^bold>\<open>C5.\<close> When the record's screenshots field is a list of objects, the payload's
  screenshots are the \<^verbatim>\<open>path_full\<close> values of the entries that have one, in the order of
  the record; \<open>full_size_paths\<close> says so in the spec's words, as a filtering map over the
  entries. For the record of the spec's example the screenshots are the first and the
  third address.
\<close>

theorem build_payload_screenshots:
  "(map_of game ''screenshots'' = Some (JArr entries) \<and> (\<forall>e\<in>set entries. \<exists>kvs. e = JObj kvs)
     \<longrightarrow> build_payload app_id url (JObj game) =
           Inr (JObj [(''app_id'', JStr app_id),
                      (''name'', case map_of game ''name'' of None \<Rightarrow> JStr ''Unknown'' | Some v \<Rightarrow> v),
                      (''source'', JStr url),
                      (''images'',
                       JObj [(''header'', case map_of game ''header_image'' of None \<Rightarrow> JNull | Some v \<Rightarrow> v),
                             (''screenshots'', JArr (full_size_paths entries))])]))
   \<and> build_payload app_id url example_record =
       Inr (JObj [(''app_id'', JStr app_id), (''name'', JStr ''Game X''), (''source'', JStr url),
                  (''images'',
                   JObj [(''header'', JStr ''http://h.jpg''),
                         (''screenshots'', JArr [JStr ''http://s1.jpg'', JStr ''http://s3.jpg''])])])"
proof (intro conjI impI)
  assume h: "map_of game ''screenshots'' = Some (JArr entries) \<and> (\<forall>e\<in>set entries. \<exists>kvs. e = JObj kvs)"
  then have "collect_paths entries = Inr (full_size_paths entries)"
    using collect_paths_objects by blast
  with h have "screenshots_of (JObj game) = Inr (full_size_paths entries)"
    by (simp add: screenshots_of_def)
  then show "build_payload app_id url (JObj game) =
           Inr (JObj [(''app_id'', JStr app_id),
                      (''name'', case map_of game ''name'' of None \<Rightarrow> JStr ''Unknown'' | Some v \<Rightarrow> v),
                      (''source'', JStr url),
                      (''images'',
                       JObj [(''header'', case map_of game ''header_image'' of None \<Rightarrow> JNull | Some v \<Rightarrow> v),
                             (''screenshots'', JArr (full_size_paths entries))])])"
    by (simp add: build_payload_def)
next
  show "build_payload app_id url example_record =
       Inr (JObj [(''app_id'', JStr app_id), (''name'', JStr ''Game X''), (''source'', JStr url),
                  (''images'',
                   JObj [(''header'', JStr ''http://h.jpg''),
                         (''screenshots'', JArr [JStr ''http://s1.jpg'', JStr ''http://s3.jpg''])])])"
    by (simp add: build_payload_def screenshots_of_def example_record_def)
qed

theorem build_payload_screenshots_witness:
  "build_payload ''10'' ''/app/10''
     (JObj [(''screenshots'', JArr [JObj [(''path_full'', JStr ''a.jpg'')], JObj [],
                                    JObj [(''path_full'', JStr ''b.jpg'')]])]) =
     Inr (JObj [(''app_id'', JStr ''10''), (''name'', JStr ''Unknown''), (''source'', JStr ''/app/10''),
                (''images'', JObj [(''header'', JNull),
                                   (''screenshots'', JArr [JStr ''a.jpg'', JStr ''b.jpg''])])])"
proof -
  let ?entries = "[JObj [(''path_full'', JStr ''a.jpg'')], JObj [], JObj [(''path_full'', JStr ''b.jpg'')]]"
  let ?game = "[(''screenshots'', JArr ?entries)]"
  have hyp: "map_of ?game ''screenshots'' = Some (JArr ?entries)
             \<and> (\<forall>e\<in>set ?entries. \<exists>kvs. e = JObj kvs)"
    by simp
  have paths: "full_size_paths ?entries = [JStr ''a.jpg'', JStr ''b.jpg'']"
    by (simp add: full_size_paths_def map_filter_simps)
  from build_payload_screenshots [of ?game ?entries "''10''" "''/app/10''", THEN conjunct1, THEN mp, OF hyp]
  show ?thesis by (simp add: paths)
qed

subsection \<open>One item through the driver\<close>

lemma image_count_payload:
  "image_count (JObj [(''app_id'', a), (''name'', n), (''source'', s),
                      (''images'', JObj [(''header'', header), (''screenshots'', JArr shots)])])
     = Inr ((if truthy header then 1 else 0) + length shots)"
  by (simp add: image_count_def)

lemma process_url_success:
  assumes "extract_app_id (JStr url) = Inr app_id"
    and "fetch_steam_data (http_get ev) app_id = Inr game"
    and "build_payload app_id url game = Inr payload"
    and "storage ev (file_path app_id) = WriteOk"
  shows "\<exists>name header shots.
           payload = JObj [(''app_id'', JStr app_id), (''name'', name), (''source'', JStr url),
                           (''images'', JObj [(''header'', header), (''screenshots'', JArr shots)])]
         \<and> process_url ev url st =
             st\<lparr>files := (files st)(file_path app_id \<mapsto> json_dumps payload),
                console := console st @ [Processing url, Saved (file_path app_id),
                             Extracted ((if truthy header then 1 else 0) + length shots)]\<rparr>"
proof -
  from build_payload_shape [OF assms(3)] obtain name header shots where
    p: "payload = JObj [(''app_id'', JStr app_id), (''name'', name), (''source'', JStr url),
          (''images'', JObj [(''header'', header), (''screenshots'', JArr shots)])]"
    by blast
  have ic: "image_count payload = Inr ((if truthy header then 1 else 0) + length shots)"
    unfolding p by (rule image_count_payload)
  have "process_url ev url st =
             st\<lparr>files := (files st)(file_path app_id \<mapsto> json_dumps payload),
                console := console st @ [Processing url, Saved (file_path app_id),
                             Extracted ((if truthy header then 1 else 0) + length shots)]\<rparr>"
    using assms ic
    by (simp add: process_url_def process_body_def save_json_def print_def Let_def)
  with p show ?thesis by blast
qed

text \<open>
  \<^bold>\<open>C6\<close>, as the code has it. For an item that goes through all four stages, the count
  on the console is the number of screenshots of the payload, plus one when the payload's
  header value is truthy: not null, not false, not zero and not empty. For the spec's
  example record the count is 3.
\<close>

theorem reported_image_count:
  "(extract_app_id (JStr url) = Inr app_id
      \<and> fetch_steam_data (http_get ev) app_id = Inr game
      \<and> build_payload app_id url game = Inr payload
      \<and> storage ev (file_path app_id) = WriteOk
     \<longrightarrow> (\<exists>name header shots.
            payload = JObj [(''app_id'', JStr app_id), (''name'', name), (''source'', JStr url),
                            (''images'', JObj [(''header'', header), (''screenshots'', JArr shots)])]
          \<and> console (process_url ev url st) =
              console st @ [Processing url, Saved (file_path app_id),
                            Extracted ((if truthy header then 1 else 0) + length shots)]))
   \<and> (case build_payload a u example_record of Inl e \<Rightarrow> Inl e | Inr p \<Rightarrow> image_count p) = Inr 3"
proof (intro conjI impI)
  assume h: "extract_app_id (JStr url) = Inr app_id
      \<and> fetch_steam_data (http_get ev) app_id = Inr game
      \<and> build_payload app_id url game = Inr payload
      \<and> storage ev (file_path app_id) = WriteOk"
  then have h1: "extract_app_id (JStr url) = Inr app_id"
    and h2: "fetch_steam_data (http_get ev) app_id = Inr game"
    and h3: "build_payload app_id url game = Inr payload"
    and h4: "storage ev (file_path app_id) = WriteOk"
    by blast+
  from process_url_success [OF h1 h2 h3 h4, of st] obtain name header shots where
    "payload = JObj [(''app_id'', JStr app_id), (''name'', name), (''source'', JStr url),
                     (''images'', JObj [(''header'', header), (''screenshots'', JArr shots)])]"
    "process_url ev url st =
             st\<lparr>files := (files st)(file_path app_id \<mapsto> json_dumps payload),
                console := console st @ [Processing url, Saved (file_path app_id),
                             Extracted ((if truthy header then 1 else 0) + length shots)]\<rparr>"
    by blast
  then show "\<exists>name header shots.
            payload = JObj [(''app_id'', JStr app_id), (''name'', name), (''source'', JStr url),
                            (''images'', JObj [(''header'', header), (''screenshots'', JArr shots)])]
          \<and> console (process_url ev url st) =
              console st @ [Processing url, Saved (file_path app_id),
                            Extracted ((if truthy header then 1 else 0) + length shots)]"
    by simp
next
  show "(case build_payload a u example_record of Inl e \<Rightarrow> Inl e | Inr p \<Rightarrow> image_count p) = Inr 3"
    by (simp add: build_payload_def screenshots_of_def example_record_def image_count_def)
qed

theorem reported_image_count_witness:
  "console (process_url (catalog_env [(''10'', succeeded example_record)]) ''/app/10'' empty_state)
     = [Processing ''/app/10'', Saved ''output/app_10.json'', Extracted 3]"
proof -
  let ?ev = "catalog_env [(''10'', succeeded example_record)]"
  let ?payload = "JObj [(''app_id'', JStr ''10''), (''name'', JStr ''Game X''),
                        (''source'', JStr ''/app/10''),
                        (''images'',
                         JObj [(''header'', JStr ''http://h.jpg''),
                               (''screenshots'', JArr [JStr ''http://s1.jpg'', JStr ''http://s3.jpg''])])]"
  have e: "extract_app_id (JStr ''/app/10'') = Inr ''10''"
    by (simp add: py_strip_def is_space_def py_whitespace_def match_at_def starts_with_def
        is_digit_def)
  have f: "fetch_steam_data (http_get ?ev) ''10'' = Inr example_record"
    by (simp add: fetch_steam_data_def catalog_env_def succeeded_def)
  have b: "build_payload ''10'' ''/app/10'' example_record = Inr ?payload"
    by (simp add: build_payload_def screenshots_of_def example_record_def)
  have w: "storage ?ev (file_path ''10'') = WriteOk"
    by (simp add: catalog_env_def)
  from e f b w have hyp: "extract_app_id (JStr ''/app/10'') = Inr ''10''
      \<and> fetch_steam_data (http_get ?ev) ''10'' = Inr example_record
      \<and> build_payload ''10'' ''/app/10'' example_record = Inr ?payload
      \<and> storage ?ev (file_path ''10'') = WriteOk"
    by (intro conjI)
  from reported_image_count [of "''/app/10''" "''10''" ?ev example_record ?payload empty_state,
      THEN conjunct1, THEN mp, OF hyp]
  obtain name header shots where
    "?payload = JObj [(''app_id'', JStr ''10''), (''name'', name), (''source'', JStr ''/app/10''),
                      (''images'', JObj [(''header'', header), (''screenshots'', JArr shots)])]"
    and c: "console (process_url ?ev ''/app/10'' empty_state) =
              console empty_state @ [Processing ''/app/10'', Saved (file_path ''10''),
                            Extracted ((if truthy header then 1 else 0) + length shots)]"
    by blast
  then have "header = JStr ''http://h.jpg''" "shots = [JStr ''http://s1.jpg'', JStr ''http://s3.jpg'']"
    by simp_all
  with c show ?thesis by (simp add: empty_state_def file_path_eq)
qed

text \<open>
  The claim as the spec words it counts a header that is present. The code tests the
  header's truth value: a record whose header image is the empty string gives a payload
  that holds that string as its header, and a count of 0.
\<close>

theorem reported_image_count_counterexample:
  "build_payload ''10'' ''/app/10'' (JObj [(''header_image'', JStr [])]) =
     Inr (JObj [(''app_id'', JStr ''10''), (''name'', JStr ''Unknown''), (''source'', JStr ''/app/10''),
                (''images'', JObj [(''header'', JStr []), (''screenshots'', JArr [])])])
   \<and> console (process_url (catalog_env [(''10'', succeeded (JObj [(''header_image'', JStr [])]))])
                ''/app/10'' empty_state)
     = [Processing ''/app/10'', Saved ''output/app_10.json'', Extracted 0]"
  by (simp add: build_payload_def screenshots_of_def process_url_def process_body_def
      py_strip_def is_space_def py_whitespace_def match_at_def starts_with_def is_digit_def
      fetch_steam_data_def catalog_env_def succeeded_def save_json_def print_def
      image_count_def empty_state_def file_path_eq Let_def)

subsection \<open>Failures stay inside the item\<close>

lemma extract_app_id_error:
  "extract_app_id v = Inl e \<Longrightarrow> \<exists>msg. e = SteamExtractorError msg"
  by (cases v) (auto split: if_splits option.splits)

lemma save_json_cases:
  "save_json ev app_id payload st = (r, st') \<Longrightarrow>
     (r = Inr () \<and> console st' = console st @ [Saved (file_path app_id)])
     \<or> ((\<exists>msg. r = Inl (SteamExtractorError msg)) \<and> console st' = console st)"
  by (cases "storage ev (file_path app_id)") (auto simp: save_json_def Let_def print_def)

lemma process_body_cases:
  assumes "process_body ev url st = (r, st')"
  shows "(r = Inr () \<and> (\<exists>p n. console st' = console st @ [Saved p, Extracted n]))
         \<or> ((\<exists>e. r = Inl e) \<and> console st' = console st)"
proof (cases "extract_app_id (JStr url)")
  case (Inl e)
  with assms show ?thesis by (auto simp: process_body_def simp del: extract_app_id.simps)
next
  case a: (Inr app_id)
  show ?thesis
  proof (cases "fetch_steam_data (http_get ev) app_id")
    case (Inl e)
    with a assms show ?thesis by (auto simp: process_body_def simp del: extract_app_id.simps)
  next
    case g: (Inr game)
    show ?thesis
    proof (cases "build_payload app_id url game")
      case (Inl e)
      with a g assms show ?thesis by (auto simp: process_body_def simp del: extract_app_id.simps)
    next
      case b: (Inr payload)
      from build_payload_shape [OF b] obtain name header shots where
        "payload = JObj [(''app_id'', JStr app_id), (''name'', name), (''source'', JStr url),
           (''images'', JObj [(''header'', header), (''screenshots'', JArr shots)])]"
        by blast
      then have ic: "image_count payload = Inr ((if truthy header then 1 else 0) + length shots)"
        by (simp add: image_count_payload)
      obtain r1 st1 where s: "save_json ev app_id payload st = (r1, st1)"
        by (cases "save_json ev app_id payload st")
      from save_json_cases [OF s] show ?thesis
      proof
        assume "r1 = Inr () \<and> console st1 = console st @ [Saved (file_path app_id)]"
        with a g b s ic assms show ?thesis
          by (auto simp: process_body_def print_def simp del: extract_app_id.simps)
      next
        assume "(\<exists>msg. r1 = Inl (SteamExtractorError msg)) \<and> console st1 = console st"
        with a g b s assms show ?thesis
          by (auto simp: process_body_def simp del: extract_app_id.simps)
      qed
    qed
  qed
qed

lemma process_url_report:
  "\<exists>ls. console (process_url ev url st) = console st @ Processing url # ls
        \<and> ((\<exists>p n. ls = [Saved p, Extracted n]) \<or> (\<exists>msg. ls = [ErrorLine msg])
             \<or> (\<exists>e. ls = [UnexpectedLine e]))"
proof -
  obtain r st' where b: "process_body ev url (print (Processing url) st) = (r, st')"
    by (cases "process_body ev url (print (Processing url) st)")
  from process_body_cases [OF b] show ?thesis
  proof
    assume "r = Inr () \<and> (\<exists>p n. console st' = console (print (Processing url) st) @ [Saved p, Extracted n])"
    with b show ?thesis by (auto simp: process_url_def print_def)
  next
    assume "(\<exists>e. r = Inl e) \<and> console st' = console (print (Processing url) st)"
    then obtain e where "r = Inl e" "console st' = console st @ [Processing url]"
      by (auto simp: print_def)
    with b show ?thesis by (cases e) (simp_all add: process_url_def print_def)
  qed
qed

lemma run_batch_console:
  "\<exists>new. console (run_batch ev urls st) = console st @ new
         \<and> filter is_start new = map Processing urls
         \<and> length (filter is_report new) = length urls"
proof (induction urls arbitrary: st)
  case Nil
  show ?case by simp
next
  case (Cons u us)
  obtain ls where ls: "console (process_url ev u st) = console st @ Processing u # ls"
    and kinds: "(\<exists>p n. ls = [Saved p, Extracted n]) \<or> (\<exists>msg. ls = [ErrorLine msg])
               \<or> (\<exists>e. ls = [UnexpectedLine e])"
    using process_url_report by blast
  from Cons [of "process_url ev u st"] obtain new where
    new: "console (run_batch ev us (process_url ev u st)) = console (process_url ev u st) @ new"
      "filter is_start new = map Processing us" "length (filter is_report new) = length us"
    by blast
  from kinds have "filter is_start ls = []" "length (filter is_report ls) = 1" by auto
  with ls new have "console (run_batch ev (u # us) st) = console st @ (Processing u # ls @ new)
         \<and> filter is_start (Processing u # ls @ new) = map Processing (u # us)
         \<and> length (filter is_report (Processing u # ls @ new)) = length (u # us)"
    by simp
  then show ?case by blast
qed

subsection \<open>What a run writes\<close>

lemma process_url_files:
  "files (process_url ev url st) =
     (case extract_app_id (JStr url) of
        Inl e \<Rightarrow> files st
      | Inr app_id \<Rightarrow>
          (case fetch_steam_data (http_get ev) app_id of
             Inl e \<Rightarrow> files st
           | Inr game \<Rightarrow>
               (case build_payload app_id url game of
                  Inl e \<Rightarrow> files st
                | Inr payload \<Rightarrow>
                    (case storage ev (file_path app_id) of
                       WriteOk \<Rightarrow> (files st)(file_path app_id \<mapsto> json_dumps payload)
                     | OpenFails msg \<Rightarrow> files st
                     | WriteFails n msg \<Rightarrow>
                         (files st)(file_path app_id \<mapsto> take n (json_dumps payload))))))"
  by (simp add: process_url_def process_body_def save_json_def print_def Let_def
      split: sum.splits exn.splits write_outcome.splits prod.splits
      del: extract_app_id.simps)

lemma process_url_writes: "\<exists>w. \<forall>st. files (process_url ev url st) = files st ++ w"
proof -
  consider (none) "\<forall>st. files (process_url ev url st) = files st"
    | (some) p c where "\<forall>st. files (process_url ev url st) = (files st)(p \<mapsto> c)"
  proof (cases "extract_app_id (JStr url)")
    case (Inl e)
    then have "\<forall>st. files (process_url ev url st) = files st"
      by (simp add: process_url_files del: extract_app_id.simps)
    then show ?thesis by (rule none)
  next
    case a: (Inr app_id)
    show ?thesis
    proof (cases "fetch_steam_data (http_get ev) app_id")
      case (Inl e)
      with a have "\<forall>st. files (process_url ev url st) = files st"
        by (simp add: process_url_files del: extract_app_id.simps)
      then show ?thesis by (rule none)
    next
      case g: (Inr game)
      show ?thesis
      proof (cases "build_payload app_id url game")
        case (Inl e)
        with a g have "\<forall>st. files (process_url ev url st) = files st"
          by (simp add: process_url_files del: extract_app_id.simps)
        then show ?thesis by (rule none)
      next
        case b: (Inr payload)
        show ?thesis
        proof (cases "storage ev (file_path app_id)")
          case WriteOk
          with a g b have "\<forall>st. files (process_url ev url st) =
                             (files st)(file_path app_id \<mapsto> json_dumps payload)"
            by (simp add: process_url_files del: extract_app_id.simps)
          then show ?thesis by (rule some)
        next
          case (OpenFails msg)
          with a g b have "\<forall>st. files (process_url ev url st) = files st"
            by (simp add: process_url_files del: extract_app_id.simps)
          then show ?thesis by (rule none)
        next
          case (WriteFails n msg)
          with a g b have "\<forall>st. files (process_url ev url st) =
                             (files st)(file_path app_id \<mapsto> take n (json_dumps payload))"
            by (simp add: process_url_files del: extract_app_id.simps)
          then show ?thesis by (rule some)
        qed
      qed
    qed
  qed
  then show ?thesis
  proof cases
    case none
    then have "\<forall>st. files (process_url ev url st) = files st ++ Map.empty" by simp
    then show ?thesis by blast
  next
    case (some p c)
    then have "\<forall>st. files (process_url ev url st) = files st ++ [p \<mapsto> c]" by simp
    then show ?thesis by blast
  qed
qed

lemma run_batch_writes: "\<exists>w. \<forall>st. files (run_batch ev urls st) = files st ++ w"
proof (induction urls)
  case Nil
  have "\<forall>st. files (run_batch ev [] st) = files st ++ Map.empty" by simp
  then show ?case by blast
next
  case (Cons u us)
  then obtain w' where w': "\<forall>st. files (run_batch ev us st) = files st ++ w'" by blast
  obtain w where w: "\<forall>st. files (process_url ev u st) = files st ++ w"
    using process_url_writes by blast
  have "\<forall>st. files (run_batch ev (u # us) st) = files st ++ (w ++ w')"
    by (simp add: w w')
  then show ?case by blast
qed

lemma map_add_twice: "(m ++ w) ++ w = m ++ w"
  by (simp add: map_add_def fun_eq_iff split: option.splits)

subsection \<open>A remote failure\<close>

lemma run_batch_continues:
  "\<exists>rest. console (run_batch ev (u # us) st) = console st @ Processing u # rest"
proof -
  obtain ls where ls: "console (process_url ev u st) = console st @ Processing u # ls"
    using process_url_report by blast
  obtain new where "console (run_batch ev us (process_url ev u st)) =
                      console (process_url ev u st) @ new"
    using run_batch_console by blast
  with ls have "console (run_batch ev (u # us) st) = console st @ Processing u # (ls @ new)"
    by simp
  then show ?thesis by blast
qed

text \<open>
  \<^bold>\<open>C7.\<close> The URL yields an identifier, the response body is an object that has the
  identifier as a key, and the envelope under it is an object whose success indicator is
  false (or falsy in another way, or absent). Then processing the URL leaves every file as
  it was, the console gets the start line and the error line for \<^verbatim>\<open>success=false\<close>, and
  the batch goes on: its files are those of the batch without this URL, and the next URL's
  start line follows the error line.
\<close>

theorem remote_failure_writes_nothing:
  "extract_app_id (JStr url) = Inr app_id
     \<and> http_get ev (api_url app_id) = BodyJson (JObj body)
     \<and> map_of body app_id = Some (JObj envelope)
     \<and> \<not> truthy (case map_of envelope ''success'' of None \<Rightarrow> JNull | Some s \<Rightarrow> s)
   \<longrightarrow> files (process_url ev url st) = files st
     \<and> console (process_url ev url st) =
         console st @ [Processing url, ErrorLine ''Steam API returned success=false'']
     \<and> files (run_batch ev (url # urls) st) = files (run_batch ev urls st)
     \<and> (\<exists>rest. console (run_batch ev (url # next_url # urls) st) =
           console st @ [Processing url, ErrorLine ''Steam API returned success=false'',
                         Processing next_url] @ rest)"
proof (intro impI)
  assume h: "extract_app_id (JStr url) = Inr app_id
     \<and> http_get ev (api_url app_id) = BodyJson (JObj body)
     \<and> map_of body app_id = Some (JObj envelope)
     \<and> \<not> truthy (case map_of envelope ''success'' of None \<Rightarrow> JNull | Some s \<Rightarrow> s)"
  then have e: "extract_app_id (JStr url) = Inr app_id"
    and g: "http_get ev (api_url app_id) = BodyJson (JObj body)"
    and k: "map_of body app_id = Some (JObj envelope)"
    and f: "\<not> truthy (case map_of envelope ''success'' of None \<Rightarrow> JNull | Some s \<Rightarrow> s)"
    by blast+
  have fetch: "fetch_steam_data (http_get ev) app_id =
                 Inl (SteamExtractorError ''Steam API returned success=false'')"
    using k f by (simp add: fetch_steam_data_object [of "http_get ev" app_id body, OF g])
  let ?st' = "st\<lparr>console := console st @ [Processing url,
                                ErrorLine ''Steam API returned success=false'']\<rparr>"
  have p: "process_url ev url st = ?st'"
    using e fetch by (simp add: process_url_def process_body_def print_def)
  obtain w where w: "\<forall>s. files (run_batch ev urls s) = files s ++ w"
    using run_batch_writes by blast
  have skip: "files (run_batch ev (url # urls) st) = files (run_batch ev urls st)"
    by (simp add: p w)
  obtain rest where "console (run_batch ev (next_url # urls) ?st') =
                       console ?st' @ Processing next_url # rest"
    using run_batch_continues by blast
  then have "console (run_batch ev (url # next_url # urls) st) =
           console st @ [Processing url, ErrorLine ''Steam API returned success=false'',
                         Processing next_url] @ rest"
    using p by simp
  then have "\<exists>rest. console (run_batch ev (url # next_url # urls) st) =
           console st @ [Processing url, ErrorLine ''Steam API returned success=false'',
                         Processing next_url] @ rest"
    by blast
  with p skip show "files (process_url ev url st) = files st
     \<and> console (process_url ev url st) =
         console st @ [Processing url, ErrorLine ''Steam API returned success=false'']
     \<and> files (run_batch ev (url # urls) st) = files (run_batch ev urls st)
     \<and> (\<exists>rest. console (run_batch ev (url # next_url # urls) st) =
           console st @ [Processing url, ErrorLine ''Steam API returned success=false'',
                         Processing next_url] @ rest)"
    by simp
qed

theorem remote_failure_writes_nothing_witness:
  "files (process_url (catalog_env [(''10'', JObj [(''success'', JBool False)])]) ''/app/10''
            empty_state) = Map.empty
   \<and> console (process_url (catalog_env [(''10'', JObj [(''success'', JBool False)])]) ''/app/10''
                empty_state)
       = [Processing ''/app/10'', ErrorLine ''Steam API returned success=false'']"
proof -
  let ?ev = "catalog_env [(''10'', JObj [(''success'', JBool False)])]"
  have hyp: "extract_app_id (JStr ''/app/10'') = Inr ''10''
     \<and> http_get ?ev (api_url ''10'') = BodyJson (JObj [(''10'', JObj [(''success'', JBool False)])])
     \<and> map_of [(''10'', JObj [(''success'', JBool False)])] ''10''
         = Some (JObj [(''success'', JBool False)])
     \<and> \<not> truthy (case map_of [(''success'', JBool False)] ''success'' of
                    None \<Rightarrow> JNull | Some s \<Rightarrow> s)"
    by (simp add: py_strip_def is_space_def py_whitespace_def match_at_def starts_with_def
        is_digit_def catalog_env_def)
  from remote_failure_writes_nothing
         [of "''/app/10''" "''10''" ?ev "[(''10'', JObj [(''success'', JBool False)])]"
             "[(''success'', JBool False)]" empty_state "[]" "''/app/20''", THEN mp, OF hyp]
  show ?thesis by (simp add: empty_state_def)
qed

subsection \<open>Running the batch again\<close>

text \<open>
  \<^bold>\<open>C8.\<close> With the same input, the same remote answers and the same storage behaviour,
  what a run writes is a function of these alone: the files after the run are the files
  before it, overridden by a fixed set of artifacts. A second run therefore writes the
  same bytes to the same paths, for one URL, for the batch and for the whole program.
\<close>

theorem batch_idempotent:
  "(\<exists>w. \<forall>st. files (run_batch ev urls st) = files st ++ w)
   \<and> files (process_url ev url (process_url ev url st)) = files (process_url ev url st)
   \<and> files (run_batch ev urls (run_batch ev urls st)) = files (run_batch ev urls st)
   \<and> files (snd (main ev content (snd (main ev content st)))) = files (snd (main ev content st))"
proof -
  have batch: "files (run_batch ev us (run_batch ev us s)) = files (run_batch ev us s)" for us s
  proof -
    obtain w where "\<forall>s. files (run_batch ev us s) = files s ++ w"
      using run_batch_writes by blast
    then show ?thesis by (simp add: map_add_twice)
  qed
  have item: "files (process_url ev url (process_url ev url st)) = files (process_url ev url st)"
  proof -
    obtain w where "\<forall>s. files (process_url ev url s) = files s ++ w"
      using process_url_writes by blast
    then show ?thesis by (simp add: map_add_twice)
  qed
  have prog: "files (snd (main ev content (snd (main ev content st)))) =
                files (snd (main ev content st))"
  proof (cases content)
    case None
    then show ?thesis by (simp add: main_def load_urls_def print_def)
  next
    case (Some lines)
    obtain w where w: "\<forall>s. files (run_batch ev (map py_strip (filter (\<lambda>l. py_strip l \<noteq> []) lines)) s)
                            = files s ++ w"
      using run_batch_writes by blast
    from Some show ?thesis
      by (simp add: main_def load_urls_def print_def w map_add_twice)
  qed
  from run_batch_writes batch item prog show ?thesis by blast
qed

subsection \<open>The batch survives every failure\<close>

lemma process_url_reports_failure:
  assumes "process_body ev url (print (Processing url) st) = (Inl e, st')"
  shows "process_url ev url st =
           print (case e of SteamExtractorError msg \<Rightarrow> ErrorLine msg | _ \<Rightarrow> UnexpectedLine e) st'"
  using assms by (cases e) (simp_all add: process_url_def)

lemma process_url_bad_url:
  assumes "extract_app_id (JStr url) = Inl e"
  shows "\<exists>msg. process_url ev url st = st\<lparr>console := console st @ [Processing url, ErrorLine msg]\<rparr>"
proof -
  from extract_app_id_error [OF assms] obtain msg where "e = SteamExtractorError msg" by blast
  with assms have "process_url ev url st = st\<lparr>console := console st @ [Processing url, ErrorLine msg]\<rparr>"
    by (simp add: process_url_def process_body_def print_def del: extract_app_id.simps)
  then show ?thesis by blast
qed

lemma process_url_good_url:
  assumes "extract_app_id (JStr url) = Inr app_id"
    and "fetch_steam_data (http_get ev) app_id = Inr (JObj game)"
    and "storage ev (file_path app_id) = WriteOk"
  shows "\<exists>content n. process_url ev url st =
           st\<lparr>files := (files st)(file_path app_id \<mapsto> content),
              console := console st @ [Processing url, Saved (file_path app_id), Extracted n]\<rparr>"
proof -
  obtain payload where b: "build_payload app_id url (JObj game) = Inr payload"
    using build_payload_object [of game app_id url] by blast
  from process_url_success [OF assms(1) assms(2) b assms(3), of st] show ?thesis by blast
qed

lemma extracted_not_blank:
  assumes "extract_app_id (JStr u) = Inr a"
  shows "u \<noteq> []"
  using assms by (auto simp: py_strip_def)

lemma file_path_inj: "file_path a = file_path b \<longleftrightarrow> a = b"
  by (simp add: file_path_eq)

lemma three_line_run:
  assumes e1: "extract_app_id (JStr (py_strip l1)) = Inr a1"
    and e3: "extract_app_id (JStr (py_strip l3)) = Inr a3"
    and ne: "a1 \<noteq> a3"
    and n2: "py_strip l2 \<noteq> []"
    and e2: "extract_app_id (JStr (py_strip l2)) = Inl e"
    and f1: "fetch_steam_data (http_get ev) a1 = Inr (JObj g1)"
    and f3: "fetch_steam_data (http_get ev) a3 = Inr (JObj g3)"
    and w1: "storage ev (file_path a1) = WriteOk"
    and w3: "storage ev (file_path a3) = WriteOk"
    and empty: "files st = Map.empty"
  shows "fst (main ev (Some [l1, l2, l3]) st) = 0
       \<and> dom (files (snd (main ev (Some [l1, l2, l3]) st))) = {file_path a1, file_path a3}
       \<and> card (dom (files (snd (main ev (Some [l1, l2, l3]) st)))) = 2
       \<and> (\<exists>n1 msg n3. console (snd (main ev (Some [l1, l2, l3]) st)) =
            console st @ [Processing (py_strip l1), Saved (file_path a1), Extracted n1,
                          Processing (py_strip l2), ErrorLine msg,
                          Processing (py_strip l3), Saved (file_path a3), Extracted n3,
                          FinishedLine])"
proof -
  let ?u1 = "py_strip l1" and ?u2 = "py_strip l2" and ?u3 = "py_strip l3"
  have nb: "?u1 \<noteq> []" "?u3 \<noteq> []"
    using e1 e3 extracted_not_blank by blast+
  have urls: "load_urls ''steam_links.txt'' (Some [l1, l2, l3]) = Inr [?u1, ?u2, ?u3]"
    using nb n2 by (simp add: load_urls_def)
  obtain c1 n1 where s1: "process_url ev ?u1 st =
      st\<lparr>files := (files st)(file_path a1 \<mapsto> c1),
         console := console st @ [Processing ?u1, Saved (file_path a1), Extracted n1]\<rparr>"
    using process_url_good_url [OF e1 f1 w1] by blast
  let ?st1 = "st\<lparr>files := (files st)(file_path a1 \<mapsto> c1),
         console := console st @ [Processing ?u1, Saved (file_path a1), Extracted n1]\<rparr>"
  obtain msg where s2: "process_url ev ?u2 ?st1 =
      ?st1\<lparr>console := console ?st1 @ [Processing ?u2, ErrorLine msg]\<rparr>"
    using process_url_bad_url [OF e2] by blast
  let ?st2 = "?st1\<lparr>console := console ?st1 @ [Processing ?u2, ErrorLine msg]\<rparr>"
  obtain c3 n3 where s3: "process_url ev ?u3 ?st2 =
      ?st2\<lparr>files := (files ?st2)(file_path a3 \<mapsto> c3),
           console := console ?st2 @ [Processing ?u3, Saved (file_path a3), Extracted n3]\<rparr>"
    using process_url_good_url [OF e3 f3 w3] by blast
  let ?st3 = "?st2\<lparr>files := (files ?st2)(file_path a3 \<mapsto> c3),
           console := console ?st2 @ [Processing ?u3, Saved (file_path a3), Extracted n3]\<rparr>"
  have rb: "run_batch ev [?u1, ?u2, ?u3] st = ?st3"
    by (simp only: run_batch.simps s1 s2 s3)
  have m: "main ev (Some [l1, l2, l3]) st = (0, print FinishedLine ?st3)"
    by (simp only: main_def urls sum.case rb)
  have fs: "files ?st3 = [file_path a1 \<mapsto> c1, file_path a3 \<mapsto> c3]"
    by (simp add: empty)
  have cs: "console ?st3 = console st @ [Processing ?u1, Saved (file_path a1), Extracted n1,
                          Processing ?u2, ErrorLine msg,
                          Processing ?u3, Saved (file_path a3), Extracted n3]"
    by simp
  have d: "dom (files ?st3) = {file_path a1, file_path a3}"
    unfolding fs by auto
  have "file_path a1 \<noteq> file_path a3" using ne by (simp add: file_path_inj)
  then have c: "card (dom (files ?st3)) = 2" unfolding d by simp
  have "console (snd (main ev (Some [l1, l2, l3]) st)) =
            console st @ [Processing ?u1, Saved (file_path a1), Extracted n1,
                          Processing ?u2, ErrorLine msg,
                          Processing ?u3, Saved (file_path a3), Extracted n3, FinishedLine]"
    unfolding m by (simp add: print_def cs)
  then have "\<exists>n1 msg n3. console (snd (main ev (Some [l1, l2, l3]) st)) =
            console st @ [Processing ?u1, Saved (file_path a1), Extracted n1,
                          Processing ?u2, ErrorLine msg,
                          Processing ?u3, Saved (file_path a3), Extracted n3, FinishedLine]"
    by blast
  moreover have "fst (main ev (Some [l1, l2, l3]) st) = 0" unfolding m by simp
  moreover have "files (snd (main ev (Some [l1, l2, l3]) st)) = files ?st3"
    unfolding m by (simp add: print_def)
  ultimately show ?thesis using d c by simp
qed

text \<open>
  \<^bold>\<open>C2.\<close> The driver returns for every URL, whatever the network and the storage do:
  after the start line the console holds exactly one outcome, the success lines or one
  error line, and an exception of the \<^verbatim>\<open>try\<close> block becomes that error line, the
  module's own class through the first handler and any other class through the second.
  The batch starts every URL of its input, in order, and reports one outcome for each.
  In particular, for an input file of three non-blank lines whose second line fails
  identifier extraction while the first and the third go through all four stages with
  different identifiers, starting with no output file: the program ends with status 0,
  exactly two output files exist, and the console shows one error, between the success
  lines of the first and of the third URL.
\<close>

theorem failures_never_abort:
  "(\<exists>ls. console (process_url ev url st) = console st @ Processing url # ls
        \<and> ((\<exists>p n. ls = [Saved p, Extracted n]) \<or> (\<exists>msg. ls = [ErrorLine msg])
             \<or> (\<exists>x. ls = [UnexpectedLine x])))
   \<and> (process_body ev url (print (Processing url) st) = (Inl e, st')
        \<longrightarrow> process_url ev url st =
              print (case e of SteamExtractorError msg \<Rightarrow> ErrorLine msg | _ \<Rightarrow> UnexpectedLine e) st')
   \<and> (\<exists>new. console (run_batch ev urls st) = console st @ new
         \<and> filter is_start new = map Processing urls
         \<and> length (filter is_report new) = length urls)
   \<and> (extract_app_id (JStr (py_strip l1)) = Inr a1
        \<and> extract_app_id (JStr (py_strip l3)) = Inr a3
        \<and> a1 \<noteq> a3
        \<and> py_strip l2 \<noteq> []
        \<and> extract_app_id (JStr (py_strip l2)) = Inl e2
        \<and> fetch_steam_data (http_get ev) a1 = Inr (JObj g1)
        \<and> fetch_steam_data (http_get ev) a3 = Inr (JObj g3)
        \<and> storage ev (file_path a1) = WriteOk
        \<and> storage ev (file_path a3) = WriteOk
        \<and> files st = Map.empty
      \<longrightarrow> fst (main ev (Some [l1, l2, l3]) st) = 0
        \<and> dom (files (snd (main ev (Some [l1, l2, l3]) st))) = {file_path a1, file_path a3}
        \<and> card (dom (files (snd (main ev (Some [l1, l2, l3]) st)))) = 2
        \<and> (\<exists>n1 msg n3. console (snd (main ev (Some [l1, l2, l3]) st)) =
              console st @ [Processing (py_strip l1), Saved (file_path a1), Extracted n1,
                            Processing (py_strip l2), ErrorLine msg,
                            Processing (py_strip l3), Saved (file_path a3), Extracted n3,
                            FinishedLine]))"
proof (intro conjI)
  show "\<exists>ls. console (process_url ev url st) = console st @ Processing url # ls
        \<and> ((\<exists>p n. ls = [Saved p, Extracted n]) \<or> (\<exists>msg. ls = [ErrorLine msg])
             \<or> (\<exists>x. ls = [UnexpectedLine x]))"
    by (rule process_url_report)
next
  show "process_body ev url (print (Processing url) st) = (Inl e, st')
        \<longrightarrow> process_url ev url st =
              print (case e of SteamExtractorError msg \<Rightarrow> ErrorLine msg | _ \<Rightarrow> UnexpectedLine e) st'"
    using process_url_reports_failure by blast
next
  show "\<exists>new. console (run_batch ev urls st) = console st @ new
         \<and> filter is_start new = map Processing urls
         \<and> length (filter is_report new) = length urls"
    by (rule run_batch_console)
next
  show "extract_app_id (JStr (py_strip l1)) = Inr a1
        \<and> extract_app_id (JStr (py_strip l3)) = Inr a3
        \<and> a1 \<noteq> a3
        \<and> py_strip l2 \<noteq> []
        \<and> extract_app_id (JStr (py_strip l2)) = Inl e2
        \<and> fetch_steam_data (http_get ev) a1 = Inr (JObj g1)
        \<and> fetch_steam_data (http_get ev) a3 = Inr (JObj g3)
        \<and> storage ev (file_path a1) = WriteOk
        \<and> storage ev (file_path a3) = WriteOk
        \<and> files st = Map.empty
      \<longrightarrow> fst (main ev (Some [l1, l2, l3]) st) = 0
        \<and> dom (files (snd (main ev (Some [l1, l2, l3]) st))) = {file_path a1, file_path a3}
        \<and> card (dom (files (snd (main ev (Some [l1, l2, l3]) st)))) = 2
        \<and> (\<exists>n1 msg n3. console (snd (main ev (Some [l1, l2, l3]) st)) =
              console st @ [Processing (py_strip l1), Saved (file_path a1), Extracted n1,
                            Processing (py_strip l2), ErrorLine msg,
                            Processing (py_strip l3), Saved (file_path a3), Extracted n3,
                            FinishedLine])"
  proof
    assume h: "extract_app_id (JStr (py_strip l1)) = Inr a1
        \<and> extract_app_id (JStr (py_strip l3)) = Inr a3
        \<and> a1 \<noteq> a3
        \<and> py_strip l2 \<noteq> []
        \<and> extract_app_id (JStr (py_strip l2)) = Inl e2
        \<and> fetch_steam_data (http_get ev) a1 = Inr (JObj g1)
        \<and> fetch_steam_data (http_get ev) a3 = Inr (JObj g3)
        \<and> storage ev (file_path a1) = WriteOk
        \<and> storage ev (file_path a3) = WriteOk
        \<and> files st = Map.empty"
    then have e1: "extract_app_id (JStr (py_strip l1)) = Inr a1"
      and e3: "extract_app_id (JStr (py_strip l3)) = Inr a3"
      and ne: "a1 \<noteq> a3"
      and n2: "py_strip l2 \<noteq> []"
      and e2: "extract_app_id (JStr (py_strip l2)) = Inl e2"
      and f1: "fetch_steam_data (http_get ev) a1 = Inr (JObj g1)"
      and f3: "fetch_steam_data (http_get ev) a3 = Inr (JObj g3)"
      and w1: "storage ev (file_path a1) = WriteOk"
      and w3: "storage ev (file_path a3) = WriteOk"
      and empty: "files st = Map.empty"
      by blast+
    show "fst (main ev (Some [l1, l2, l3]) st) = 0
        \<and> dom (files (snd (main ev (Some [l1, l2, l3]) st))) = {file_path a1, file_path a3}
        \<and> card (dom (files (snd (main ev (Some [l1, l2, l3]) st)))) = 2
        \<and> (\<exists>n1 msg n3. console (snd (main ev (Some [l1, l2, l3]) st)) =
              console st @ [Processing (py_strip l1), Saved (file_path a1), Extracted n1,
                            Processing (py_strip l2), ErrorLine msg,
                            Processing (py_strip l3), Saved (file_path a3), Extracted n3,
                            FinishedLine])"
      by (rule three_line_run [OF e1 e3 ne n2 e2 f1 f3 w1 w3 empty])
  qed
qed

theorem failures_never_abort_witness:
  "fst (main (catalog_env [(''10'', succeeded example_record), (''20'', succeeded (JObj []))])
          (Some [''/app/10'' @ [CHR 0x0A], ''/sub/123'' @ [CHR 0x0A], '' /app/20''])
          empty_state) = 0
   \<and> card (dom (files (snd
        (main (catalog_env [(''10'', succeeded example_record), (''20'', succeeded (JObj []))])
          (Some [''/app/10'' @ [CHR 0x0A], ''/sub/123'' @ [CHR 0x0A], '' /app/20''])
          empty_state)))) = 2
   \<and> length (filter is_error (console (snd
        (main (catalog_env [(''10'', succeeded example_record), (''20'', succeeded (JObj []))])
          (Some [''/app/10'' @ [CHR 0x0A], ''/sub/123'' @ [CHR 0x0A], '' /app/20''])
          empty_state)))) = 1"
proof -
  let ?ev = "catalog_env [(''10'', succeeded example_record), (''20'', succeeded (JObj []))]"
  let ?l1 = "''/app/10'' @ [CHR 0x0A]" and ?l2 = "''/sub/123'' @ [CHR 0x0A]" and ?l3 = "'' /app/20''"
  have s1: "py_strip ?l1 = ''/app/10''" and s2: "py_strip ?l2 = ''/sub/123''"
    and s3: "py_strip ?l3 = ''/app/20''"
    by (simp_all add: py_strip_def is_space_def py_whitespace_def)
  have hyp: "extract_app_id (JStr (py_strip ?l1)) = Inr ''10''
        \<and> extract_app_id (JStr (py_strip ?l3)) = Inr ''20''
        \<and> ''10'' \<noteq> ''20''
        \<and> py_strip ?l2 \<noteq> []
        \<and> extract_app_id (JStr (py_strip ?l2)) = Inl (SteamExtractorError ''Invalid Steam product URL'')
        \<and> fetch_steam_data (http_get ?ev) ''10'' =
            Inr (JObj [(''name'', JStr ''Game X''), (''header_image'', JStr ''http://h.jpg''),
                       (''screenshots'', JArr [JObj [(''path_full'', JStr ''http://s1.jpg'')],
                                               JObj [(''id'', JInt 2)],
                                               JObj [(''path_full'', JStr ''http://s3.jpg'')]])])
        \<and> fetch_steam_data (http_get ?ev) ''20'' = Inr (JObj [])
        \<and> storage ?ev (file_path ''10'') = WriteOk
        \<and> storage ?ev (file_path ''20'') = WriteOk
        \<and> files empty_state = Map.empty"
    unfolding s1 s2 s3
    by (simp add: py_strip_def is_space_def py_whitespace_def match_at_def starts_with_def
        is_digit_def fetch_steam_data_def catalog_env_def succeeded_def example_record_def
        api_url_def empty_state_def)
  note run = failures_never_abort [where ev = ?ev and st = empty_state and ?l1.0 = ?l1
      and ?l2.0 = ?l2 and ?l3.0 = ?l3 and ?a1.0 = "''10''" and ?a3.0 = "''20''"
      and ?e2.0 = "SteamExtractorError ''Invalid Steam product URL''"
      and ?g1.0 = "[(''name'', JStr ''Game X''), (''header_image'', JStr ''http://h.jpg''),
                       (''screenshots'', JArr [JObj [(''path_full'', JStr ''http://s1.jpg'')],
                                               JObj [(''id'', JInt 2)],
                                               JObj [(''path_full'', JStr ''http://s3.jpg'')]])]"
      and ?g3.0 = "[]",
      THEN conjunct2, THEN conjunct2, THEN conjunct2, THEN mp, OF hyp]
  from run obtain n1 msg n3 where
    c: "console (snd (main ?ev (Some [?l1, ?l2, ?l3]) empty_state)) =
              console empty_state @ [Processing (py_strip ?l1), Saved (file_path ''10''), Extracted n1,
                            Processing (py_strip ?l2), ErrorLine msg,
                            Processing (py_strip ?l3), Saved (file_path ''20''), Extracted n3,
                            FinishedLine]"
    by blast
  have errs: "length (filter is_error (console (snd (main ?ev (Some [?l1, ?l2, ?l3]) empty_state)))) = 1"
    unfolding c by (simp add: empty_state_def)
  from run errs show ?thesis by blast
qed

subsection \<open>The layout of the artifact\<close>

lemma json_dumps_payload:
  "json_dumps (JObj [(''app_id'', JStr app_id), (''name'', name), (''source'', JStr url),
                     (''images'', JObj [(''header'', header), (''screenshots'', JArr shots)])]) =
     ''{'' @ newline_indent 1
       @ encode_str ''app_id'' @ '': '' @ encode_str app_id @ '','' @ newline_indent 1
       @ encode_str ''name'' @ '': '' @ json_encode 1 name @ '','' @ newline_indent 1
       @ encode_str ''source'' @ '': '' @ encode_str url @ '','' @ newline_indent 1
       @ encode_str ''images'' @ '': '' @ ''{'' @ newline_indent 2
           @ encode_str ''header'' @ '': '' @ json_encode 2 header @ '','' @ newline_indent 2
           @ encode_str ''screenshots'' @ '': '' @ json_encode 2 (JArr shots)
           @ newline_indent 1 @ ''}''
       @ newline_indent 0 @ ''}''"
  by (simp add: json_dumps_def numeral_2_eq_2)

text \<open>
  \<^bold>\<open>C9.\<close> For every payload the builder returns and every identifier whose file can be
  written, the file written by the persister is the object with the keys \<^verbatim>\<open>app_id\<close> (the
  spec's identifier), \<^verbatim>\<open>name\<close>, \<^verbatim>\<open>source\<close> and \<^verbatim>\<open>images\<close> in this order, and inside
  \<^verbatim>\<open>images\<close> the keys \<^verbatim>\<open>header\<close> and \<^verbatim>\<open>screenshots\<close> in this order, each on its own
  line, indented by two spaces per level. Only the values differ between payloads.
\<close>

theorem artifact_field_order:
  "build_payload app_id url game = Inr payload \<and> storage ev (file_path app_id) = WriteOk
   \<longrightarrow> (\<exists>name header shots.
         payload = JObj [(''app_id'', JStr app_id), (''name'', name), (''source'', JStr url),
                         (''images'', JObj [(''header'', header), (''screenshots'', JArr shots)])]
       \<and> files (snd (save_json ev app_id payload st)) (file_path app_id) =
           Some (''{'' @ newline_indent 1
             @ encode_str ''app_id'' @ '': '' @ encode_str app_id @ '','' @ newline_indent 1
             @ encode_str ''name'' @ '': '' @ json_encode 1 name @ '','' @ newline_indent 1
             @ encode_str ''source'' @ '': '' @ encode_str url @ '','' @ newline_indent 1
             @ encode_str ''images'' @ '': '' @ ''{'' @ newline_indent 2
                 @ encode_str ''header'' @ '': '' @ json_encode 2 header @ '','' @ newline_indent 2
                 @ encode_str ''screenshots'' @ '': '' @ json_encode 2 (JArr shots)
                 @ newline_indent 1 @ ''}''
             @ newline_indent 0 @ ''}''))"
proof
  assume h: "build_payload app_id url game = Inr payload \<and> storage ev (file_path app_id) = WriteOk"
  then obtain name header shots where
    p: "payload = JObj [(''app_id'', JStr app_id), (''name'', name), (''source'', JStr url),
          (''images'', JObj [(''header'', header), (''screenshots'', JArr shots)])]"
    using build_payload_shape by blast
  from h have "files (snd (save_json ev app_id payload st)) (file_path app_id) =
                 Some (json_dumps payload)"
    by (simp add: save_json_def Let_def print_def)
  with p show "\<exists>name header shots.
         payload = JObj [(''app_id'', JStr app_id), (''name'', name), (''source'', JStr url),
                         (''images'', JObj [(''header'', header), (''screenshots'', JArr shots)])]
       \<and> files (snd (save_json ev app_id payload st)) (file_path app_id) =
           Some (''{'' @ newline_indent 1
             @ encode_str ''app_id'' @ '': '' @ encode_str app_id @ '','' @ newline_indent 1
             @ encode_str ''name'' @ '': '' @ json_encode 1 name @ '','' @ newline_indent 1
             @ encode_str ''source'' @ '': '' @ encode_str url @ '','' @ newline_indent 1
             @ encode_str ''images'' @ '': '' @ ''{'' @ newline_indent 2
                 @ encode_str ''header'' @ '': '' @ json_encode 2 header @ '','' @ newline_indent 2
                 @ encode_str ''screenshots'' @ '': '' @ json_encode 2 (JArr shots)
                 @ newline_indent 1 @ ''}''
             @ newline_indent 0 @ ''}'')"
    by (simp add: json_dumps_payload)
qed

theorem artifact_field_order_witness:
  "files (snd (save_json (catalog_env [])
                 ''10''
                 (JObj [(''app_id'', JStr ''10''), (''name'', JStr ''Game X''),
                        (''source'', JStr ''/app/10''),
                        (''images'',
                         JObj [(''header'', JStr ''http://h.jpg''),
                               (''screenshots'', JArr [JStr ''http://s1.jpg'', JStr ''http://s3.jpg''])])])
                 empty_state))
     ''output/app_10.json'' =
     Some (''{'' @ newline_indent 1
       @ encode_str ''app_id'' @ '': '' @ encode_str ''10'' @ '','' @ newline_indent 1
       @ encode_str ''name'' @ '': '' @ encode_str ''Game X'' @ '','' @ newline_indent 1
       @ encode_str ''source'' @ '': '' @ encode_str ''/app/10'' @ '','' @ newline_indent 1
       @ encode_str ''images'' @ '': '' @ ''{'' @ newline_indent 2
           @ encode_str ''header'' @ '': '' @ encode_str ''http://h.jpg'' @ '','' @ newline_indent 2
           @ encode_str ''screenshots'' @ '': '' @ ''['' @ newline_indent 3
               @ encode_str ''http://s1.jpg'' @ '','' @ newline_indent 3
               @ encode_str ''http://s3.jpg'' @ newline_indent 2 @ '']''
           @ newline_indent 1 @ ''}''
       @ newline_indent 0 @ ''}'')"
proof -
  let ?payload = "JObj [(''app_id'', JStr ''10''), (''name'', JStr ''Game X''),
                        (''source'', JStr ''/app/10''),
                        (''images'',
                         JObj [(''header'', JStr ''http://h.jpg''),
                               (''screenshots'', JArr [JStr ''http://s1.jpg'', JStr ''http://s3.jpg''])])]"
  have hyp: "build_payload ''10'' ''/app/10'' example_record = Inr ?payload
             \<and> storage (catalog_env []) (file_path ''10'') = WriteOk"
    by (simp add: build_payload_def screenshots_of_def example_record_def catalog_env_def)
  from artifact_field_order [of "''10''" "''/app/10''" example_record ?payload "catalog_env []"
         empty_state, THEN mp, OF hyp]
  obtain name header shots where
    p: "?payload = JObj [(''app_id'', JStr ''10''), (''name'', name), (''source'', JStr ''/app/10''),
                         (''images'', JObj [(''header'', header), (''screenshots'', JArr shots)])]"
    and f: "files (snd (save_json (catalog_env []) ''10'' ?payload empty_state)) (file_path ''10'') =
           Some (''{'' @ newline_indent 1
             @ encode_str ''app_id'' @ '': '' @ encode_str ''10'' @ '','' @ newline_indent 1
             @ encode_str ''name'' @ '': '' @ json_encode 1 name @ '','' @ newline_indent 1
             @ encode_str ''source'' @ '': '' @ encode_str ''/app/10'' @ '','' @ newline_indent 1
             @ encode_str ''images'' @ '': '' @ ''{'' @ newline_indent 2
                 @ encode_str ''header'' @ '': '' @ json_encode 2 header @ '','' @ newline_indent 2
                 @ encode_str ''screenshots'' @ '': '' @ json_encode 2 (JArr shots)
                 @ newline_indent 1 @ ''}''
             @ newline_indent 0 @ ''}'')"
    by blast
  from p have v: "name = JStr ''Game X''" "header = JStr ''http://h.jpg''"
    "shots = [JStr ''http://s1.jpg'', JStr ''http://s3.jpg'']"
    by simp_all
  have path: "file_path ''10'' = ''output/app_10.json''" by (simp add: file_path_eq)
  from f show ?thesis unfolding v path by (simp add: numeral_3_eq_3)
qed

end
